(* ===== verification/Prelude.thy ===== *)
theory Prelude
  imports Main "HOL-Library.Word" "HOL-Library.AList" "HOL-Library.Product_Lexorder"
    "HOL-Library.Multiset"
begin

unbundle bit_operations_syntax

text \<open>
  The vocabulary the component theories share: the widths of the machine
  integers of the kernel, Rust's saturating and wrapping arithmetic on them, the
  result type of fallible operations, the first-position search of Rust's
  iterators, the whitespace test of \<open>str::trim\<close>, and association lists as the
  model of \<open>HashMap\<close>, \<open>HashSet\<close> and \<open>DashMap\<close>. An association list with
  distinct keys is such a map together with the order in which one iteration
  happens to visit it, so a lemma about every such list is a lemma about every
  iteration order.

  Arithmetic is that of a release build: \<open>+\<close>, \<open>-\<close> and \<open>*\<close> wrap, a shift
  distance is taken modulo the width.
\<close>

named_theorems sat_simps \<open>saturating arithmetic read through unat\<close>
named_theorems map_simps \<open>lookups in association lists\<close>

subsection \<open>Machine integers\<close>

type_synonym u8 = "8 word"
type_synonym u32 = "32 word"
type_synonym u64 = "64 word"

type_synonym agent_id = u64
type_synonym uuid = "128 word"

text \<open>\<open>saturating_add\<close>, \<open>saturating_sub\<close> and \<open>checked_add\<close>.\<close>

definition sat_add :: "'a::len word \<Rightarrow> 'a word \<Rightarrow> 'a word" where
  "sat_add x y = (if unat x + unat y < 2 ^ LENGTH('a) then x + y else - 1)"

definition sat_sub :: "'a::len word \<Rightarrow> 'a word \<Rightarrow> 'a word" where
  "sat_sub x y = (if y \<le> x then x - y else 0)"

definition checked_add :: "'a::len word \<Rightarrow> 'a word \<Rightarrow> 'a word option" where
  "checked_add x y = (if unat x + unat y < 2 ^ LENGTH('a) then Some (x + y) else None)"

lemma unat_max_word [sat_simps]: "unat (- 1 :: 'a::len word) = 2 ^ LENGTH('a) - 1"
  by (simp only: unsigned_minus_1_eq_mask mask_eq_exp_minus_1)

lemma unat_sat_add [sat_simps]:
  "unat (sat_add x y) = min (unat x + unat y) (2 ^ LENGTH('a) - 1)" for x y :: "'a::len word"
proof (cases "unat x + unat y < 2 ^ LENGTH('a)")
  case True
  then show ?thesis by (simp add: sat_add_def unat_word_ariths)
next
  case False
  then show ?thesis by (simp add: sat_add_def unat_max_word)
qed

lemma unat_sat_sub [sat_simps]: "unat (sat_sub x y) = unat x - unat y"
  by (simp add: sat_sub_def unat_sub_if_size word_le_nat_alt)

lemma checked_add_Some_iff:
  "checked_add x y = Some z \<longleftrightarrow> unat x + unat y < 2 ^ LENGTH('a) \<and> z = x + y"
  for x y z :: "'a::len word"
  by (auto simp: checked_add_def)

lemma unat_checked_add: "checked_add x y = Some z \<Longrightarrow> unat z = unat x + unat y"
  by (auto simp: checked_add_Some_iff unat_word_ariths)

lemma unat_add_bounded:
  "unat x + unat y < 2 ^ LENGTH('a) \<Longrightarrow> unat (x + y) = unat x + unat y" for x y :: "'a::len word"
  by (simp add: unat_word_ariths)

lemma unat_mult_bounded:
  "unat x * unat y < 2 ^ LENGTH('a) \<Longrightarrow> unat (x * y) = unat x * unat y" for x y :: "'a::len word"
  by (simp add: unat_word_ariths)

text \<open>\<open>usize\<close> counters are natural numbers; only their saturation is visible.\<close>

definition usize_max :: nat where "usize_max = 2 ^ 64 - 1"

definition usat_add :: "nat \<Rightarrow> nat \<Rightarrow> nat" where
  "usat_add a b = min (a + b) usize_max"

lemma usat_add_le_iff: "k < usize_max \<Longrightarrow> usat_add a b \<le> k \<longleftrightarrow> a + b \<le> k"
  by (auto simp: usat_add_def)

lemma usat_add_exact: "a + b \<le> usize_max \<Longrightarrow> usat_add a b = a + b"
  by (simp add: usat_add_def)

text \<open>\<open>1 << sig\<close> on \<open>u64\<close> with an eight-bit distance.\<close>

definition shl1 :: "u8 \<Rightarrow> u64" where
  "shl1 s = push_bit (unat s mod 64) 1"

lemma bit_shl1: "bit (shl1 s) n \<longleftrightarrow> n = unat s mod 64"
  by (auto simp: shl1_def bit_simps)

subsection \<open>Results\<close>

definition bind_res :: "'e + 'a \<Rightarrow> ('a \<Rightarrow> 'e + 'b) \<Rightarrow> 'e + 'b" where
  "bind_res m f = (case m of Inl e \<Rightarrow> Inl e | Inr x \<Rightarrow> f x)"

lemma bind_res_simps [simp]:
  "bind_res (Inl e) f = Inl e"
  "bind_res (Inr x) f = f x"
  by (simp_all add: bind_res_def)

lemma bind_res_Inr_iff: "bind_res m f = Inr y \<longleftrightarrow> (\<exists>x. m = Inr x \<and> f x = Inr y)"
  by (cases m) simp_all

lemma bind_res_Inl_iff: "bind_res m f = Inl e \<longleftrightarrow> m = Inl e \<or> (\<exists>x. m = Inr x \<and> f x = Inl e)"
  by (cases m) simp_all

text \<open>An operation that may also panic: \<open>expect\<close> on a missing value.\<close>

datatype 'e failure = Err 'e | Panic

definition expect :: "'a option \<Rightarrow> 'e failure + 'a" where
  "expect x = (case x of None \<Rightarrow> Inl Panic | Some y \<Rightarrow> Inr y)"

lemma expect_simps [simp]: "expect None = Inl Panic" "expect (Some y) = Inr y"
  by (simp_all add: expect_def)

text \<open>Sequencing of fallible steps that also change a state; a failed step keeps its state.\<close>

definition bind_st :: "('e + 'a) \<times> 's \<Rightarrow> ('a \<Rightarrow> 's \<Rightarrow> ('e + 'b) \<times> 's) \<Rightarrow> ('e + 'b) \<times> 's" where
  "bind_st r f = (case r of (Inl e, s) \<Rightarrow> (Inl e, s) | (Inr x, s) \<Rightarrow> f x s)"

lemma bind_st_simps [simp]: "bind_st (Inl e, s) f = (Inl e, s)" "bind_st (Inr x, s) f = f x s"
  by (simp_all add: bind_st_def)

lemma bind_st_Inr:
  assumes "bind_st r f = (Inr y, s')"
  obtains x s where "r = (Inr x, s)" and "f x s = (Inr y, s')"
  using assms by (auto simp: bind_st_def split: prod.splits sum.splits)

definition guard_res :: "bool \<Rightarrow> 'e \<Rightarrow> 'e + unit" where
  "guard_res c e = (if c then Inr () else Inl e)"

lemma guard_res_simps [simp]: "guard_res True e = Inr ()" "guard_res False e = Inl e"
  "guard_res c e = Inr u \<longleftrightarrow> c"
  by (simp_all add: guard_res_def)

definition ok_or :: "'a option \<Rightarrow> 'e \<Rightarrow> 'e + 'a" where
  "ok_or x e = (case x of None \<Rightarrow> Inl e | Some y \<Rightarrow> Inr y)"

lemma ok_or_simps [simp]: "ok_or None e = Inl e" "ok_or (Some y) e = Inr y"
  by (simp_all add: ok_or_def)

text \<open>Success of a chain of fallible steps, one step at a time.\<close>

named_theorems res_simps \<open>when a fallible step succeeds\<close>

lemma case_sum_Inr_iff [res_simps]:
  "(case x of Inl e \<Rightarrow> Inl (f e) | Inr y \<Rightarrow> g y) = Inr z \<longleftrightarrow> (\<exists>y. x = Inr y \<and> g y = Inr z)"
  by (cases x) simp_all

lemma case_option_Inr_iff [res_simps]:
  "(case x of None \<Rightarrow> Inl e | Some y \<Rightarrow> g y) = Inr z \<longleftrightarrow> (\<exists>y. x = Some y \<and> g y = Inr z)"
  by (cases x) simp_all

lemma if_Inr_iff [res_simps]: "(if c then Inl e else x) = Inr z \<longleftrightarrow> \<not> c \<and> x = Inr z"
  by simp

lemma ok_or_Inr_iff [res_simps]: "ok_or x e = Inr z \<longleftrightarrow> x = Some z"
  by (cases x) simp_all

declare bind_res_Inr_iff [res_simps]

subsection \<open>Iterator searches\<close>

text \<open>\<open>Iterator::position\<close>.\<close>

fun position :: "('a \<Rightarrow> bool) \<Rightarrow> 'a list \<Rightarrow> nat option" where
  "position P [] = None"
| "position P (x # xs) = (if P x then Some 0 else map_option Suc (position P xs))"

lemma position_None_iff: "position P xs = None \<longleftrightarrow> (\<forall>x\<in>set xs. \<not> P x)"
  by (induction xs) auto

lemma position_Some_iff:
  "position P xs = Some i \<longleftrightarrow> i < length xs \<and> P (xs ! i) \<and> (\<forall>j<i. \<not> P (xs ! j))"
proof (induction xs arbitrary: i)
  case (Cons x xs)
  show ?case
  proof (cases i)
    case 0
    then show ?thesis by (auto split: option.split)
  next
    case (Suc k)
    show ?thesis using Cons.IH [of k] Suc by (auto simp: less_Suc_eq_0_disj nth_Cons' split: if_splits)
  qed
qed simp

lemma position_append:
  "position P (xs @ ys) =
     (case position P xs of Some i \<Rightarrow> Some i | None \<Rightarrow> map_option ((+) (length xs)) (position P ys))"
  by (induction xs) (auto simp: map_option_case split: option.split)

lemma position_map: "position P (map f xs) = position (P \<circ> f) xs"
  by (induction xs) auto

text \<open>\<open>Vec::remove\<close> at an index in range, and the first occurrence taken out.\<close>

definition remove_at :: "nat \<Rightarrow> 'a list \<Rightarrow> 'a list" where
  "remove_at i xs = take i xs @ drop (Suc i) xs"

lemma length_remove_at [simp]: "i < length xs \<Longrightarrow> length (remove_at i xs) = length xs - 1"
  by (simp add: remove_at_def)

lemma set_remove_at_subset: "set (remove_at i xs) \<subseteq> set xs"
  by (auto simp: remove_at_def dest: in_set_takeD in_set_dropD)

lemma distinct_remove_at:
  "distinct xs \<Longrightarrow> i < length xs \<Longrightarrow> set (remove_at i xs) = set xs - {xs ! i}"
proof -
  assume d: "distinct xs" and i: "i < length xs"
  from i have xs: "xs = take i xs @ xs ! i # drop (Suc i) xs"
    by (rule id_take_nth_drop)
  with d have "distinct (take i xs @ xs ! i # drop (Suc i) xs)" by simp
  then have "xs ! i \<notin> set (take i xs)" "xs ! i \<notin> set (drop (Suc i) xs)" by auto
  moreover from xs have "set xs = insert (xs ! i) (set (take i xs) \<union> set (drop (Suc i) xs))"
    by (metis list.simps(15) set_append Un_insert_right)
  ultimately show ?thesis by (auto simp: remove_at_def)
qed

text \<open>\<open>Vec::swap_remove\<close>: the last element takes the place of the removed one.\<close>

definition swap_remove :: "nat \<Rightarrow> 'a list \<Rightarrow> 'a list" where
  "swap_remove i xs = butlast (xs[i := last xs])"

lemma mset_swap_remove: "i < length xs \<Longrightarrow> mset (swap_remove i xs) = mset xs - {#xs ! i#}"
proof (cases xs rule: rev_cases)
  case (snoc ys y)
  assume "i < length xs"
  with snoc consider "i < length ys" | "i = length ys" by (auto simp: less_Suc_eq)
  then show ?thesis
    by cases (simp_all add: snoc swap_remove_def list_update_append mset_update nth_append)
qed simp

lemma length_swap_remove [simp]: "length (swap_remove i xs) = length xs - 1"
  by (simp add: swap_remove_def)

lemma distinct_swap_remove:
  assumes "distinct xs" and "i < length xs"
  shows "distinct (swap_remove i xs) \<and> set (swap_remove i xs) = set xs - {xs ! i}"
proof -
  let ?ys = "swap_remove i xs"
  have m: "mset ?ys = mset (remove1 (xs ! i) xs)" using mset_swap_remove [OF assms(2)] by simp
  have "distinct ?ys" using mset_eq_imp_distinct_iff [OF m] assms(1) by simp
  moreover have "set ?ys = set xs - {xs ! i}" using mset_eq_setD [OF m] assms(1) by simp
  ultimately show ?thesis ..
qed

subsection \<open>Hash maps\<close>

abbreviation keys_of :: "('k \<times> 'v) list \<Rightarrow> 'k set" where
  "keys_of m \<equiv> fst ` set m"

definition wf_map :: "('k \<times> 'v) list \<Rightarrow> bool" where
  "wf_map m \<longleftrightarrow> distinct (map fst m)"

lemma wf_map_Nil [simp]: "wf_map []"
  by (simp add: wf_map_def)

lemma wf_map_update [simp]: "wf_map m \<Longrightarrow> wf_map (AList.update k v m)"
  by (simp add: wf_map_def distinct_update)

lemma wf_map_delete [simp]: "wf_map m \<Longrightarrow> wf_map (AList.delete k m)"
  by (simp add: wf_map_def distinct_delete)

lemma wf_map_filter [simp]: "wf_map m \<Longrightarrow> wf_map (filter P m)"
  by (simp add: wf_map_def distinct_map_filter)

lemma map_of_update [map_simps]: "map_of (AList.update k v m) = (map_of m)(k \<mapsto> v)"
  by (simp add: update_conv')

lemma map_of_delete [map_simps]: "map_of (AList.delete k m) = (map_of m)(k := None)"
  by (simp add: delete_conv')

lemma map_of_map_entry [map_simps]:
  "map_of (AList.map_entry k f m) = (map_of m)(k := map_option f (map_of m k))"
  by (induction m) (auto simp: fun_eq_iff)

lemma keys_of_map_entry [map_simps]: "keys_of (AList.map_entry k f m) = keys_of m"
  by (induction m) auto

lemma map_fst_map_entry [simp]: "map fst (AList.map_entry k f m) = map fst m"
  by (induction m) auto

lemma wf_map_map_entry [simp]: "wf_map (AList.map_entry k f m) = wf_map m"
  by (simp add: wf_map_def)

text \<open>A search through an updated map: the updated entry, or another one.\<close>

lemma ex_entry_upd: "(\<exists>k v. (m(i \<mapsto> x)) k = Some v \<and> P k v) \<longleftrightarrow> P i x \<or> (\<exists>k v. k \<noteq> i \<and> m k = Some v \<and> P k v)"
  by auto

lemma ex_entry_split: "m i = Some x \<Longrightarrow> (\<exists>k v. m k = Some v \<and> P k v) \<longleftrightarrow> P i x \<or> (\<exists>k v. k \<noteq> i \<and> m k = Some v \<and> P k v)"
  by (metis option.inject)

lemma keys_of_update [map_simps]: "keys_of (AList.update k v m) = insert k (keys_of m)"
  by (simp flip: dom_map_of_conv_image_fst add: update_conv')

lemma keys_of_delete [map_simps]: "keys_of (AList.delete k m) = keys_of m - {k}"
  by (simp flip: dom_map_of_conv_image_fst add: delete_conv')

lemma map_of_in_set: "wf_map m \<Longrightarrow> (k, v) \<in> set m \<longleftrightarrow> map_of m k = Some v"
  by (simp add: wf_map_def map_of_eq_Some_iff)

lemma map_of_None_iff: "map_of m k = None \<longleftrightarrow> k \<notin> keys_of m"
  by (simp add: map_of_eq_None_iff)

subsection \<open>Rust strings\<close>

text \<open>
  A Rust string is its UTF-8 bytes. \<open>ws_len s\<close> is the number of bytes of the
  Unicode white space character at the head of \<open>s\<close>, 0 if there is none; the
  characters with more than one byte are U+0085, U+00A0, U+1680, U+2000 to U+200A,
  U+2028, U+2029, U+202F, U+205F and U+3000.
\<close>

definition ws_len :: "string \<Rightarrow> nat" where
  "ws_len s = (case map (of_char :: char \<Rightarrow> nat) (take 3 s) of
       [] \<Rightarrow> 0
     | a # r \<Rightarrow>
        if 9 \<le> a \<and> a \<le> 13 \<or> a = 32 then 1
        else (case r of
            [] \<Rightarrow> 0
          | b # r' \<Rightarrow>
             if a = 0xC2 \<and> (b = 0x85 \<or> b = 0xA0) then 2
             else (case r' of
                 [] \<Rightarrow> 0
               | c # _ \<Rightarrow>
                  if a = 0xE1 \<and> b = 0x9A \<and> c = 0x80
                   \<or> a = 0xE2 \<and> b = 0x80 \<and> (0x80 \<le> c \<and> c \<le> 0x8A \<or> c = 0xA8 \<or> c = 0xA9 \<or> c = 0xAF)
                   \<or> a = 0xE2 \<and> b = 0x81 \<and> c = 0x9F
                   \<or> a = 0xE3 \<and> b = 0x80 \<and> c = 0x80
                  then 3 else 0)))"

text \<open>\<open>s.trim().is_empty()\<close>.\<close>

function trim_is_empty :: "string \<Rightarrow> bool" where
  "trim_is_empty s =
     (if s = [] then True else if ws_len s = 0 then False else trim_is_empty (drop (ws_len s) s))"
  by pat_completeness auto
termination
  by (relation "measure length") auto

declare trim_is_empty.simps [simp del]

lemma trim_is_empty_Nil [simp]: "trim_is_empty []"
  by (subst trim_is_empty.simps) simp

lemma not_blank: "33 \<le> (of_char c :: nat) \<Longrightarrow> (of_char c :: nat) < 128 \<Longrightarrow> \<not> trim_is_empty (c # s)"
  by (subst trim_is_empty.simps) (auto simp: ws_len_def take_Cons' split: list.split)

text \<open>\<open>str::split\<close> on one character: always at least one piece.\<close>

fun split_on :: "char \<Rightarrow> string \<Rightarrow> string list" where
  "split_on c [] = [[]]"
| "split_on c (x # s) =
     (if x = c then [] # split_on c s
      else (case split_on c s of p # ps \<Rightarrow> (x # p) # ps | [] \<Rightarrow> [[x]]))"

text \<open>\<open>[String]::join\<close>.\<close>

fun join_with :: "string \<Rightarrow> string list \<Rightarrow> string" where
  "join_with sep [] = []"
| "join_with sep [p] = p"
| "join_with sep (p # q # ps) = p @ sep @ join_with sep (q # ps)"

lemma split_on_not_Nil [simp]: "split_on c s \<noteq> []"
  by (induction s) (auto split: list.split)

lemma split_on_pieces: "p \<in> set (split_on c s) \<Longrightarrow> c \<notin> set p"
  by (induction s arbitrary: p) (auto split: list.splits if_splits)

lemma split_on_chars: "p \<in> set (split_on c s) \<Longrightarrow> set p \<subseteq> set s"
proof (induction s arbitrary: p)
  case (Cons x s)
  from Cons.prems Cons.IH show ?case
    by (auto split: list.splits if_splits) (metis list.set_intros subsetD)+
qed simp

lemma split_on_piece: "c \<notin> set s \<Longrightarrow> split_on c s = [s]"
  by (induction s) auto

lemma split_on_append: "c \<notin> set p \<Longrightarrow> split_on c (p @ c # s) = p # split_on c s"
  by (induction p) auto

lemma split_join:
  "ps \<noteq> [] \<Longrightarrow> \<forall>p\<in>set ps. c \<notin> set p \<Longrightarrow> split_on c (join_with [c] ps) = ps"
proof (induction "[c]" ps rule: join_with.induct)
  case (3 p q ps)
  then show ?case by (simp add: split_on_append)
qed (simp_all add: split_on_piece)

end
