(* ===== verification/Agent_Struct.thy ===== *)
theory Agent_Struct
  imports Prelude
begin

text \<open>
  The agent descriptor (\<open>crates/kernel/src/agent_struct.rs\<close>): life-cycle states,
  the capability bit set, scheduling class, pending signals and their delivery,
  and the table of descriptors. The process-wide counter \<open>NEXT_AGENT_ID\<close> is
  threaded through the constructor; the clock reading it takes is an argument.
  A custom signal handler is the identity of its closure, which this file never
  calls.
\<close>

unbundle bit_operations_syntax

section \<open>Data\<close>

definition INIT_AGENT_ID :: agent_id where "INIT_AGENT_ID = 1"
definition KERNEL_AGENT_ID :: agent_id where "KERNEL_AGENT_ID = 0"

datatype BlockReason = ToolCall | IpcWait | SignalWait | Sleep | ChildWait

datatype AgentState =
    Created | Ready | Running | Blocked BlockReason | Stopped | Zombie | Dead

record CapabilitySet =
  cap_bits :: u64

definition CAP_TOOL_MOUNT :: u64 where "CAP_TOOL_MOUNT = push_bit 0 1"
definition CAP_AGENT_CREATE :: u64 where "CAP_AGENT_CREATE = push_bit 1 1"
definition CAP_AGENT_KILL :: u64 where "CAP_AGENT_KILL = push_bit 2 1"
definition CAP_NET_ACCESS :: u64 where "CAP_NET_ACCESS = push_bit 3 1"
definition CAP_FILE_WRITE :: u64 where "CAP_FILE_WRITE = push_bit 4 1"
definition CAP_FILE_DELETE :: u64 where "CAP_FILE_DELETE = push_bit 5 1"
definition CAP_EXEC :: u64 where "CAP_EXEC = push_bit 6 1"
definition CAP_ADMIN :: u64 where "CAP_ADMIN = push_bit 7 1"
definition CAP_SYS_RESOURCE :: u64 where "CAP_SYS_RESOURCE = push_bit 8 1"

lemmas cap_defs = CAP_TOOL_MOUNT_def CAP_AGENT_CREATE_def CAP_AGENT_KILL_def CAP_NET_ACCESS_def
  CAP_FILE_WRITE_def CAP_FILE_DELETE_def CAP_EXEC_def CAP_ADMIN_def CAP_SYS_RESOURCE_def

definition cap_new :: "u64 \<Rightarrow> CapabilitySet" where
  "cap_new b = \<lparr>cap_bits = b\<rparr>"

definition cap_all :: CapabilitySet where
  "cap_all = \<lparr>cap_bits = - 1\<rparr>"

definition cap_none :: CapabilitySet where
  "cap_none = \<lparr>cap_bits = 0\<rparr>"

definition cap_has :: "CapabilitySet \<Rightarrow> u64 \<Rightarrow> bool" where
  "cap_has c cap \<longleftrightarrow> cap_bits c AND cap \<noteq> 0"

definition cap_grant :: "CapabilitySet \<Rightarrow> u64 \<Rightarrow> CapabilitySet" where
  "cap_grant c cap = c\<lparr>cap_bits := cap_bits c OR cap\<rparr>"

definition cap_revoke :: "CapabilitySet \<Rightarrow> u64 \<Rightarrow> CapabilitySet" where
  "cap_revoke c cap = c\<lparr>cap_bits := cap_bits c AND NOT cap\<rparr>"

definition drop_cap :: "CapabilitySet \<Rightarrow> u64 \<Rightarrow> CapabilitySet" where
  "drop_cap c cap = cap_revoke c cap"

record AgentCredentials =
  uid :: u64
  gid :: u64
  groups :: "u64 list"
  capabilities :: CapabilitySet

datatype SchedClass = RealTime | Normal | Background | Deadline u64

record SchedInfo =
  si_nice :: int
  si_vruntime :: u64
  si_class :: SchedClass
  tokens_this_slice :: u64
  tokens_total :: u64
  tool_calls_total :: u64

datatype SignalHandler = Default | Ignore | Custom nat

record SignalInfo =
  pending :: u64
  mask_bits :: u64
  handlers :: "(u8 \<times> SignalHandler) list"

definition SIGSTOP :: u8 where "SIGSTOP = 1"
definition SIGCONT :: u8 where "SIGCONT = 2"
definition SIGKILL :: u8 where "SIGKILL = 3"
definition SIGTERM :: u8 where "SIGTERM = 4"
definition SIGUSR1 :: u8 where "SIGUSR1 = 5"
definition SIGUSR2 :: u8 where "SIGUSR2 = 6"
definition SIGCHLD :: u8 where "SIGCHLD = 7"
definition SIGALRM :: u8 where "SIGALRM = 8"

lemmas sig_defs = SIGSTOP_def SIGCONT_def SIGKILL_def SIGTERM_def

record ResourcePointers =
  context_ns :: u64
  tool_ns :: u64
  agent_ns :: u64
  net_ns :: u64
  cgroup_ptr :: u64

record ExitInfo =
  exit_code :: int
  exit_signal :: "u8 option"
  exited_at :: int

record AgentStruct =
  id_of :: agent_id
  name_of :: string
  parent_of :: agent_id
  children_of :: "agent_id list"
  pgid :: agent_id
  sid :: agent_id
  state_of :: AgentState
  exit_info :: "ExitInfo option"
  creds :: AgentCredentials
  resources :: ResourcePointers
  sched :: SchedInfo
  signals :: SignalInfo
  created_at :: int
  started_at :: "int option"
  last_active_at :: int

section \<open>Operations\<close>

text \<open>\<open>agent_new next name parent now\<close>: the descriptor and the advanced counter.\<close>

definition agent_new :: "u64 \<Rightarrow> string \<Rightarrow> agent_id \<Rightarrow> int \<Rightarrow> AgentStruct \<times> u64" where
  "agent_new next name parent now =
     (\<lparr>id_of = next, name_of = name, parent_of = parent, children_of = [],
       pgid = next, sid = next, state_of = Created, exit_info = None,
       creds = \<lparr>uid = 1000, gid = 1000, groups = [1000], capabilities = cap_none\<rparr>,
       resources = \<lparr>context_ns = 0, tool_ns = 0, agent_ns = 0, net_ns = 0, cgroup_ptr = 0\<rparr>,
       sched = \<lparr>si_nice = 0, si_vruntime = 0, si_class = Normal, tokens_this_slice = 0,
                tokens_total = 0, tool_calls_total = 0\<rparr>,
       signals = \<lparr>pending = 0, mask_bits = 0, handlers = []\<rparr>,
       created_at = now, started_at = None, last_active_at = now\<rparr>, next + 1)"

definition has_cap :: "AgentStruct \<Rightarrow> u64 \<Rightarrow> bool" where
  "has_cap a cap \<longleftrightarrow> cap_has (capabilities (creds a)) cap"

definition is_alive :: "AgentStruct \<Rightarrow> bool" where
  "is_alive a \<longleftrightarrow> \<not> (state_of a = Zombie \<or> state_of a = Dead)"

definition pending_signal :: "AgentStruct \<Rightarrow> u8 \<Rightarrow> AgentStruct" where
  "pending_signal a sig = a\<lparr>signals := (signals a)\<lparr>pending := pending (signals a) OR shl1 sig\<rparr>\<rparr>"

definition send_signal :: "AgentStruct \<Rightarrow> u8 \<Rightarrow> AgentStruct" where
  "send_signal a sig =
     (if sig = SIGKILL \<or> sig = SIGSTOP then pending_signal a sig
      else if mask_bits (signals a) AND shl1 sig \<noteq> 0 then a
      else pending_signal a sig)"

definition clear_pending :: "AgentStruct \<Rightarrow> u8 \<Rightarrow> AgentStruct" where
  "clear_pending a sig =
     a\<lparr>signals := (signals a)\<lparr>pending := pending (signals a) AND NOT (shl1 sig)\<rparr>\<rparr>"

fun deliver_loop :: "u8 list \<Rightarrow> AgentStruct \<Rightarrow> AgentStruct" where
  "deliver_loop [] a = a"
| "deliver_loop (sig # sigs) a =
     (if pending (signals a) AND shl1 sig = 0 then deliver_loop sigs a
      else let a = clear_pending a sig in
        if sig = SIGKILL then a\<lparr>state_of := Dead\<rparr>
        else if sig = SIGSTOP then a\<lparr>state_of := Stopped\<rparr>
        else if sig = SIGCONT \<and> state_of a = Stopped then deliver_loop sigs (a\<lparr>state_of := Ready\<rparr>)
        else if sig = SIGTERM then
          deliver_loop sigs
            (case map_of (handlers (signals a)) sig of
               Some Ignore \<Rightarrow> a
             | Some (Custom _) \<Rightarrow> a
             | _ \<Rightarrow> a\<lparr>state_of := Dead\<rparr>)
        else deliver_loop sigs a)"

definition sig_range :: "u8 list" where
  "sig_range = map word_of_nat [0..<64]"

definition deliver_signals :: "AgentStruct \<Rightarrow> AgentStruct" where
  "deliver_signals a =
     (if pending (signals a) = 0 then a else deliver_loop sig_range a)"

text \<open>The agent table.\<close>

type_synonym AgentTable = "(agent_id \<times> AgentStruct) list"

definition table_new :: AgentTable where
  "table_new = []"

definition table_insert :: "AgentTable \<Rightarrow> AgentStruct \<Rightarrow> AgentTable \<times> agent_id" where
  "table_insert t a = (AList.update (id_of a) a t, id_of a)"

definition table_get :: "AgentTable \<Rightarrow> agent_id \<Rightarrow> AgentStruct option" where
  "table_get t i = map_of t i"

definition table_remove :: "AgentTable \<Rightarrow> agent_id \<Rightarrow> AgentTable \<times> bool" where
  "table_remove t i = (AList.delete i t, map_of t i \<noteq> None)"

definition table_count :: "AgentTable \<Rightarrow> nat" where
  "table_count t = length t"

definition list_ids :: "AgentTable \<Rightarrow> agent_id list" where
  "list_ids t = map fst t"

section \<open>Signals\<close>

lemma and_shl1_zero_iff: "w AND shl1 s = 0 \<longleftrightarrow> \<not> bit w (unat s mod 64)"
proof -
  have "w AND shl1 s = 0 \<longleftrightarrow> (\<forall>n. \<not> bit (w AND shl1 s) n)"
    by (metis bit_0_eq bit_eqI bot_apply bot_bool_def)
  also have "\<dots> \<longleftrightarrow> \<not> bit w (unat s mod 64)"
    by (auto simp: bit_and_iff bit_shl1)
  finally show ?thesis .
qed

definition is_pending :: "AgentStruct \<Rightarrow> u8 \<Rightarrow> bool" where
  "is_pending a s \<longleftrightarrow> bit (pending (signals a)) (unat s mod 64)"

lemma is_pending_state [simp]: "is_pending (a\<lparr>state_of := x\<rparr>) s \<longleftrightarrow> is_pending a s"
  by (simp add: is_pending_def)

lemma is_pending_zero: "pending (signals a) = 0 \<Longrightarrow> \<not> is_pending a s"
  by (simp add: is_pending_def)

lemma and_shl1_pending: "pending (signals a) AND shl1 s = 0 \<longleftrightarrow> \<not> is_pending a s"
  by (simp add: and_shl1_zero_iff is_pending_def)

lemma pending_signal_simps [simp]:
  "state_of (pending_signal a s) = state_of a"
  "is_pending (pending_signal a s) t \<longleftrightarrow> is_pending a t \<or> unat t mod 64 = unat s mod 64"
  by (auto simp: is_pending_def pending_signal_def bit_or_iff bit_shl1)

lemma clear_pending_simps [simp]:
  "state_of (clear_pending a s) = state_of a"
  "handlers (signals (clear_pending a s)) = handlers (signals a)"
  "is_pending (clear_pending a s) t \<longleftrightarrow> is_pending a t \<and> unat t mod 64 \<noteq> unat s mod 64"
  by (auto simp: is_pending_def clear_pending_def bit_and_iff bit_not_iff bit_shl1)

text \<open>A signal number of the delivery loop is below 64, so its bit is its own.\<close>

lemma sig_small: "unat SIGSTOP < 64" "unat SIGKILL < 64" "unat SIGCONT < 64"
  by (simp_all add: sig_defs)

lemma sig_distinct [simp]:
  "SIGKILL \<noteq> SIGSTOP" "SIGSTOP \<noteq> SIGKILL" "SIGCONT \<noteq> SIGSTOP" "SIGCONT \<noteq> SIGKILL"
  "SIGTERM \<noteq> SIGSTOP" "SIGTERM \<noteq> SIGKILL"
  "SIGTERM \<noteq> SIGCONT"
  by (simp_all add: sig_defs)

lemma signal_order:
  obtains late where "sig_range = 0 # SIGSTOP # late"
    and "SIGSTOP \<notin> set late" and "SIGKILL \<in> set late" and "\<forall>s\<in>set late. unat s < 64"
proof (rule that)
  have "[0..<64] = [0..<2] @ [2..<(64::nat)]"
    using upt_add_eq_append [of 0 2 62] by simp
  also have "[0..<2] = [0, 1::nat]"
    by code_simp
  finally have "map word_of_nat [0..<64] = map word_of_nat [0, 1] @ map word_of_nat [2..<64]"
    by (simp only: map_append)
  then show "sig_range = 0 # SIGSTOP # map word_of_nat [2..<64]"
    by (simp only: sig_range_def SIGSTOP_def list.map of_nat_0 of_nat_1 append_Cons append_Nil semiring_1_class.of_nat_simps(1))
  have sm: "unat (word_of_nat n :: u8) = n" if "n \<in> {2..<64}" for n
    using that by (simp add: unat_of_nat)
  show "SIGSTOP \<notin> set (map word_of_nat [2..<64])"
  proof
    assume "SIGSTOP \<in> set (map word_of_nat [2..<64])"
    then obtain n where n: "n \<in> {2..<64}" and eq: "(word_of_nat n :: u8) = 1"
      unfolding SIGSTOP_def set_map set_upt by (metis imageE)
    from sm [OF n] eq n show False by simp
  qed
  have "SIGKILL = word_of_nat 3" by (simp add: SIGKILL_def)
  then show "SIGKILL \<in> set (map word_of_nat [2..<64])"
    unfolding set_map set_upt by (intro image_eqI [of _ _ 3]) simp_all
  show "\<forall>s\<in>set (map word_of_nat [2..<64]). unat (s::u8) < 64"
    unfolding set_map set_upt using sm by fastforce
qed

lemma deliver_loop_dead:
  "state_of a = Dead \<Longrightarrow> SIGSTOP \<notin> set sigs \<Longrightarrow> state_of (deliver_loop sigs a) = Dead"
proof (induction sigs arbitrary: a)
  case (Cons s sigs)
  then show ?case by (auto simp: Let_def split: option.split SignalHandler.split)
qed simp

text \<open>Delivery never raises a signal.\<close>

lemma deliver_loop_pending: "is_pending (deliver_loop sigs a) t \<Longrightarrow> is_pending a t"
proof (induction sigs arbitrary: a)
  case (Cons s sigs)
  from Cons.prems show ?case
    by (auto simp: Let_def split: if_splits option.splits SignalHandler.splits dest!: Cons.IH)
qed simp

lemma deliver_loop_skip: "\<not> is_pending a s \<Longrightarrow> deliver_loop (s # sigs) a = deliver_loop sigs a"
  by (simp add: and_shl1_pending)

lemma deliver_loop_other:
  assumes "is_pending a s" and "s \<noteq> SIGKILL" and "s \<noteq> SIGSTOP"
  obtains x where "deliver_loop (s # sigs) a = deliver_loop sigs ((clear_pending a s)\<lparr>state_of := x\<rparr>)"
proof (rule that)
  let ?x = "if s = SIGCONT \<and> state_of a = Stopped then Ready
            else if s = SIGTERM then
              (case map_of (handlers (signals a)) s of
                 Some Ignore \<Rightarrow> state_of a | Some (Custom _) \<Rightarrow> state_of a | _ \<Rightarrow> Dead)
            else state_of a"
  have same: "(clear_pending a t)\<lparr>state_of := x\<rparr> = clear_pending a t" if "state_of a = x" for x t
    using that by (simp add: clear_pending_def)
  from assms show "deliver_loop (s # sigs) a = deliver_loop sigs ((clear_pending a s)\<lparr>state_of := ?x\<rparr>)"
    by (simp add: Let_def and_shl1_pending same split: option.split SignalHandler.split)
qed

lemma deliver_loop_kill:
  assumes "is_pending a SIGKILL" and "SIGKILL \<in> set sigs"
    and "SIGSTOP \<notin> set sigs \<or> \<not> is_pending a SIGSTOP" and "\<forall>s\<in>set sigs. unat s < 64"
  shows "state_of (deliver_loop sigs a) = Dead"
  using assms
proof (induction sigs arbitrary: a)
  case (Cons s sigs)
  show ?case
  proof (cases "is_pending a s \<and> s \<noteq> SIGKILL")
    case True
    with Cons.prems have ns: "s \<noteq> SIGSTOP" by auto
    with True obtain x where
      "deliver_loop (s # sigs) a = deliver_loop sigs ((clear_pending a s)\<lparr>state_of := x\<rparr>)"
      using deliver_loop_other by metis
    moreover have "unat SIGKILL \<noteq> unat s" using True by (simp add: word_unat_eq_iff)
    with Cons.prems True have "state_of (deliver_loop sigs ((clear_pending a s)\<lparr>state_of := x\<rparr>)) = Dead"
      by (intro Cons.IH) (auto simp: sig_small)
    ultimately show ?thesis by simp
  next
    case False
    show ?thesis
    proof (cases "s = SIGKILL")
      case True
      with Cons.prems show ?thesis by (simp add: Let_def and_shl1_pending)
    next
      case neq: False
      with False have "deliver_loop (s # sigs) a = deliver_loop sigs a"
        by (intro deliver_loop_skip) simp
      moreover from neq Cons.prems have "state_of (deliver_loop sigs a) = Dead"
        by (intro Cons.IH) auto
      ultimately show ?thesis by simp
    qed
  qed
qed simp

lemma deliver_loop_stop:
  assumes "is_pending a SIGSTOP"
  shows "\<exists>b. deliver_loop (0 # SIGSTOP # late) a = (clear_pending b SIGSTOP)\<lparr>state_of := Stopped\<rparr> \<and>
             (b = a \<or> (\<exists>x. b = (clear_pending a 0)\<lparr>state_of := x\<rparr>))"
proof -
  have stop: "deliver_loop (SIGSTOP # late) b = (clear_pending b SIGSTOP)\<lparr>state_of := Stopped\<rparr>"
    if "is_pending b SIGSTOP" for b
    using that by (simp add: Let_def and_shl1_pending)
  show ?thesis
  proof (cases "is_pending a 0")
    case False
    then have "deliver_loop (0 # SIGSTOP # late) a = deliver_loop (SIGSTOP # late) a"
      by (rule deliver_loop_skip)
    then show ?thesis using stop [OF assms] by metis
  next
    case True
    moreover have "0 \<noteq> SIGKILL" "0 \<noteq> SIGSTOP" by (simp_all add: sig_defs)
    ultimately obtain x where "deliver_loop (0 # SIGSTOP # late) a =
        deliver_loop (SIGSTOP # late) ((clear_pending a 0)\<lparr>state_of := x\<rparr>)"
      by (rule deliver_loop_other)
    moreover have "is_pending ((clear_pending a 0)\<lparr>state_of := x\<rparr>) SIGSTOP"
      using assms by (simp add: SIGSTOP_def)
    ultimately show ?thesis using stop by metis
  qed
qed

lemma deliver_signals_stop:
  assumes "is_pending a SIGSTOP"
  shows "state_of (deliver_signals a) = Stopped"
    and "\<not> is_pending (deliver_signals a) SIGSTOP"
    and "is_pending (deliver_signals a) SIGKILL \<longleftrightarrow> is_pending a SIGKILL"
proof -
  obtain late where order: "sig_range = 0 # SIGSTOP # late"
    by (rule signal_order)
  have "pending (signals a) \<noteq> 0" using assms is_pending_zero by blast
  then have "deliver_signals a = deliver_loop (0 # SIGSTOP # late) a"
    unfolding deliver_signals_def order by simp
  then obtain b where b: "deliver_signals a = (clear_pending b SIGSTOP)\<lparr>state_of := Stopped\<rparr>"
    and cases: "b = a \<or> (\<exists>x. b = (clear_pending a 0)\<lparr>state_of := x\<rparr>)"
    using deliver_loop_stop [OF assms] by metis
  show "state_of (deliver_signals a) = Stopped" by (simp add: b)
  show "\<not> is_pending (deliver_signals a) SIGSTOP" by (simp add: b)
  show "is_pending (deliver_signals a) SIGKILL \<longleftrightarrow> is_pending a SIGKILL"
    using cases by (auto simp: b sig_defs)
qed

lemma deliver_signals_kill:
  assumes "is_pending a SIGKILL" and "\<not> is_pending a SIGSTOP"
  shows "state_of (deliver_signals a) = Dead"
proof -
  obtain late where order: "sig_range = 0 # SIGSTOP # late"
    and late: "SIGKILL \<in> set late" "\<forall>s\<in>set late. unat s < 64"
    by (rule signal_order)
  have "pending (signals a) \<noteq> 0" using assms(1) is_pending_zero by blast
  moreover have "state_of (deliver_loop (0 # SIGSTOP # late) a) = Dead"
    using assms late by (intro deliver_loop_kill) (auto simp: sig_small)
  ultimately show ?thesis unfolding deliver_signals_def order by simp
qed

lemma deliver_signals_dead:
  assumes "state_of a = Dead" and "\<not> is_pending a SIGSTOP"
  shows "state_of (deliver_signals a) = Dead"
proof -
  obtain late where order: "sig_range = 0 # SIGSTOP # late"
    and late: "SIGSTOP \<notin> set late"
    by (rule signal_order)
  show ?thesis
    using assms late unfolding deliver_signals_def order
    by (auto simp: Let_def and_shl1_pending deliver_loop_dead sig_defs)
qed

lemma deliver_signals_pending: "is_pending (deliver_signals a) t \<Longrightarrow> is_pending a t"
  by (auto simp: deliver_signals_def split: if_splits dest: deliver_loop_pending)

lemma send_signal_kill: "is_pending (send_signal a SIGKILL) SIGKILL"
  by (simp add: send_signal_def)

section \<open>Capabilities\<close>

lemma cap_has_iff_bit: "cap_has c cap \<longleftrightarrow> (\<exists>n. bit (cap_bits c) n \<and> bit cap n)"
proof -
  have "cap_has c cap \<longleftrightarrow> (\<exists>n. bit (cap_bits c AND cap) n)"
    unfolding cap_has_def by (metis bit_0_eq bit_eqI bot_apply bot_bool_def)
  then show ?thesis by (simp add: bit_and_iff)
qed

lemma cap_has_grant: "cap_has (cap_grant c g) cap \<longleftrightarrow> cap_has c cap \<or> g AND cap \<noteq> 0"
  by (auto simp: cap_has_def cap_grant_def and.commute bit.conj_disj_distrib or_eq_0_iff)

lemma cap_has_revoke_self: "\<not> cap_has (cap_revoke c cap) cap"
  by (simp add: cap_has_def cap_revoke_def and.assoc)

lemma cap_has_revoke_other: "g AND cap = 0 \<Longrightarrow> cap_has (cap_revoke c g) cap \<longleftrightarrow> cap_has c cap"
proof -
  assume disj: "g AND cap = 0"
  have "bit (NOT g) n" if "bit cap n" for n
  proof -
    from that have "n < 64" using bit_imp_le_length by fastforce
    moreover from disj have "\<not> bit (g AND cap) n" by simp
    with that have "\<not> bit g n" by (simp add: bit_and_iff)
    ultimately show ?thesis by (simp add: bit_not_iff)
  qed
  then show ?thesis by (auto simp: cap_has_iff_bit cap_revoke_def bit_and_iff)
qed

section \<open>Identifiers\<close>

text \<open>The identifiers handed out by \<open>k\<close> successive constructor calls.\<close>

fun allocate :: "u64 \<Rightarrow> nat \<Rightarrow> agent_id list" where
  "allocate next 0 = []"
| "allocate next (Suc k) =
     (case agent_new next [] KERNEL_AGENT_ID 0 of (a, next') \<Rightarrow> id_of a # allocate next' k)"

lemma allocate_eq: "allocate next k = map (\<lambda>i. next + word_of_nat i) [0..<k]"
proof (induction k arbitrary: "next")
  case (Suc k)
  have "allocate next (Suc k) = next # map (\<lambda>i. next + 1 + word_of_nat i) [0..<k]"
    by (simp add: agent_new_def Suc.IH)
  also have "\<dots> = map (\<lambda>i. next + word_of_nat i) (0 # map Suc [0..<k])"
    by (simp add: add.assoc)
  also have "0 # map Suc [0..<k] = [0..<Suc k]"
    by (simp only: map_Suc_upt upt_conv_Cons [of 0 "Suc k"] zero_less_Suc)
  finally show ?case .
qed simp

section \<open>Properties\<close>

lemma and_two_power_zero_iff: "w AND 2 ^ i = 0 \<longleftrightarrow> \<not> (i < 64 \<and> bit w i)" for w :: u64
proof -
  have "w AND 2 ^ i = 0 \<longleftrightarrow> (\<forall>n. \<not> bit (w AND 2 ^ i) n)"
    by (metis bit_0_eq bit_eqI bot_apply bot_bool_def)
  then show ?thesis by (auto simp: bit_simps)
qed

text \<open>
  C30: \<open>SIGKILL\<close> cannot be blocked, masked, handled or outrun: whatever the state,
  the mask, the handlers and the other pending signals of an agent, two rounds of
  delivery after the signal was sent leave it dead (the first round may be taken by
  a pending \<open>SIGSTOP\<close>, which ends the round).
\<close>

theorem sigkill_is_fatal: "state_of (deliver_signals (deliver_signals (send_signal a SIGKILL))) = Dead"
proof (cases "is_pending (send_signal a SIGKILL) SIGSTOP")
  case True
  with send_signal_kill [of a] show ?thesis
    by (intro deliver_signals_kill) (simp_all add: deliver_signals_stop)
next
  case False
  then show ?thesis
    using deliver_signals_pending [of "send_signal a SIGKILL" SIGSTOP]
    by (intro deliver_signals_dead deliver_signals_kill send_signal_kill) auto
qed

text \<open>
  On single capabilities the bit set is a set: granting adds exactly the granted
  capability and revoking removes exactly the revoked one.
\<close>

theorem capability_set_laws:
  assumes "i < 64" and "j < 64"
  shows "(cap_has (cap_grant c (push_bit i 1)) (push_bit j 1) \<longleftrightarrow> cap_has c (push_bit j 1) \<or> i = j)
       \<and> (cap_has (drop_cap c (push_bit i 1)) (push_bit j 1) \<longleftrightarrow> cap_has c (push_bit j 1) \<and> i \<noteq> j)"
  using assms
  by (auto simp: cap_has_def cap_grant_def cap_revoke_def drop_cap_def and_two_power_zero_iff bit_simps)

theorem capability_set_laws_witness:
  "cap_has (cap_grant cap_none (push_bit 4 1)) (push_bit 4 1)
   \<and> \<not> cap_has (drop_cap cap_all (push_bit 6 1)) (push_bit 6 1)"
  using capability_set_laws [of 4 4 cap_none] capability_set_laws [of 6 6 cap_all] by simp

text \<open>
  The counter gives every agent an identifier of its own until all 64-bit values
  have been used.
\<close>

theorem allocated_ids_distinct:
  assumes "k \<le> 2 ^ 64"
  shows "distinct (allocate next k)"
proof -
  have "inj_on (\<lambda>i. next + word_of_nat i) (set [0..<k])"
  proof (rule inj_onI)
    fix i j :: nat
    assume "i \<in> set [0..<k]" "j \<in> set [0..<k]" and eq: "next + word_of_nat i = next + (word_of_nat j :: u64)"
    then have ij: "i < 2 ^ 64" "j < 2 ^ 64" using assms by auto
    from eq have "unat (word_of_nat i :: u64) = unat (word_of_nat j :: u64)" by simp
    then have "i mod 2 ^ LENGTH(64) = j mod 2 ^ LENGTH(64)" by (simp only: unat_of_nat)
    with ij show "i = j" by simp
  qed
  then show ?thesis by (simp add: allocate_eq distinct_map)
qed

theorem allocated_ids_distinct_witness: "distinct (allocate (- 1) 3)"
  by (rule allocated_ids_distinct) simp

end
