(* ===== verification/First_Match.thy ===== *)
theory First_Match
  imports Prelude
begin

text \<open>
  Ordered rule lists in which the first rule that matches decides. The locale is
  the contract between such a list and its users; the mandatory access control
  engine and the permission profiles both provide it. Its lemmas say when a rule
  is dead, that dead rules can be dropped, and how appended rules take effect.
\<close>

locale first_match =
  fixes hit :: "'r \<Rightarrow> 'q \<Rightarrow> bool"
    and verdict :: "'r \<Rightarrow> 'd"
    and fallback :: 'd
    and decide :: "'r list \<Rightarrow> 'q \<Rightarrow> 'd \<times> nat option"
  assumes decide_hit: "position (\<lambda>r. hit r q) rs = Some i \<Longrightarrow> decide rs q = (verdict (rs ! i), Some i)"
    and decide_miss: "position (\<lambda>r. hit r q) rs = None \<Longrightarrow> decide rs q = (fallback, None)"
begin

lemma decide_index: "snd (decide rs q) = position (\<lambda>r. hit r q) rs"
  by (cases "position (\<lambda>r. hit r q) rs") (simp_all add: decide_hit decide_miss)

lemma decided_by_rule:
  "snd (decide rs q) = Some i \<longleftrightarrow> i < length rs \<and> hit (rs ! i) q \<and> (\<forall>j<i. \<not> hit (rs ! j) q)"
  by (simp add: decide_index position_Some_iff)

lemma decided_by_default: "snd (decide rs q) = None \<longleftrightarrow> (\<forall>r\<in>set rs. \<not> hit r q)"
  by (simp add: decide_index position_None_iff)

text \<open>A rule that an earlier one covers never decides.\<close>

lemma covered_rule_dead:
  assumes "j < i" and "i < length rs" and "\<And>q. hit (rs ! i) q \<Longrightarrow> hit (rs ! j) q"
  shows "snd (decide rs q) \<noteq> Some i"
  using assms by (auto simp: decided_by_rule)

lemma decide_append_hit:
  "snd (decide rs q) = Some i \<Longrightarrow> decide (rs @ rs') q = decide rs q"
proof -
  assume "snd (decide rs q) = Some i"
  then have some: "position (\<lambda>r. hit r q) rs = Some i" by (simp add: decide_index)
  then have "i < length rs" by (simp add: position_Some_iff)
  moreover have "position (\<lambda>r. hit r q) (rs @ rs') = Some i" by (simp add: position_append some)
  ultimately show ?thesis using some by (simp add: decide_hit nth_append)
qed

lemma decide_append_miss:
  assumes "snd (decide rs q) = None"
  shows "fst (decide (rs @ rs') q) = fst (decide rs' q)"
    and "snd (decide (rs @ rs') q) = map_option ((+) (length rs)) (snd (decide rs' q))"
proof -
  from assms have none: "position (\<lambda>r. hit r q) rs = None" by (simp add: decide_index)
  show "snd (decide (rs @ rs') q) = map_option ((+) (length rs)) (snd (decide rs' q))"
    by (simp add: decide_index position_append none)
  show "fst (decide (rs @ rs') q) = fst (decide rs' q)"
    by (cases "position (\<lambda>r. hit r q) rs'")
       (simp_all add: decide_hit decide_miss position_append none)
qed

text \<open>Dropping a rule that does not decide a query does not change its verdict.\<close>

lemma drop_dead_rule:
  assumes "snd (decide (xs @ r # ys) q) \<noteq> Some (length xs)"
  shows "fst (decide (xs @ ys) q) = fst (decide (xs @ r # ys) q)"
proof (cases "position (\<lambda>r. hit r q) xs")
  case (Some i)
  then have "snd (decide xs q) = Some i" by (simp add: decide_index)
  then show ?thesis by (simp add: decide_append_hit)
next
  case None
  then have miss: "snd (decide xs q) = None" by (simp add: decide_index)
  from assms None have "\<not> hit r q" by (auto simp: decide_index position_append)
  then have "snd (decide [r] q) = None" by (simp add: decide_index)
  then have "fst (decide ([r] @ ys) q) = fst (decide ys q)" by (rule decide_append_miss(1))
  with miss show ?thesis by (simp add: decide_append_miss(1))
qed

end

end
