(* ===== verification/Mac.thy ===== *)
theory Mac
  imports First_Match
begin

text \<open>
  The mandatory access control engine (\<open>crates/kernel/src/mac.rs\<close>): labels,
  ordered rules, permissive mode, and the glob matcher for raw resources. Parsing
  of TOML is a third-party library and an argument of \<open>load_policy_toml\<close>.
\<close>

section \<open>The engine\<close>

type_synonym SecurityLabel = string

datatype MacDecision = Allow | Deny | Audit

record PolicyRule =
  rule_subject :: string
  rule_action :: string
  rule_object :: string
  rule_decision :: string

record MacEngine =
  labels :: "(agent_id \<times> SecurityLabel) list"
  resource_labels :: "(string \<times> SecurityLabel) list"
  mac_rules :: "PolicyRule list"
  mac_default :: MacDecision
  enforcing :: bool

definition mac_new :: "bool \<Rightarrow> MacEngine" where
  "mac_new enf = \<lparr>labels = [], resource_labels = [], mac_rules = [], mac_default = Deny,
                   enforcing = enf\<rparr>"

definition label_agent :: "MacEngine \<Rightarrow> agent_id \<Rightarrow> SecurityLabel \<Rightarrow> MacEngine" where
  "label_agent e a l = e\<lparr>labels := AList.update a l (labels e)\<rparr>"

definition label_resource :: "MacEngine \<Rightarrow> string \<Rightarrow> SecurityLabel \<Rightarrow> MacEngine" where
  "label_resource e path l = e\<lparr>resource_labels := AList.update path l (resource_labels e)\<rparr>"

definition load_policy :: "MacEngine \<Rightarrow> PolicyRule list \<Rightarrow> MacEngine" where
  "load_policy e rs = e\<lparr>mac_rules := rs\<rparr>"

definition load_policy_toml ::
    "(string \<Rightarrow> string + PolicyRule list) \<Rightarrow> MacEngine \<Rightarrow> string \<Rightarrow> string + MacEngine" where
  "load_policy_toml parse e s = bind_res (parse s) (\<lambda>rs. Inr (e\<lparr>mac_rules := rs\<rparr>))"

definition matches :: "string \<Rightarrow> string \<Rightarrow> bool" where
  "matches pattern value \<longleftrightarrow> pattern = ''*'' \<or> pattern = value"

lemma take_2_length: "take 2 p = ''**'' \<Longrightarrow> length (drop 2 p) < length p"
  by (cases p) auto

function glob_match :: "string \<Rightarrow> string \<Rightarrow> bool" where
  "glob_match p v =
     (if take 2 p = ''**'' then
        glob_match (drop 2 p) v \<or> (case v of [] \<Rightarrow> False | _ # v' \<Rightarrow> glob_match p v')
      else case p of
        c # rest \<Rightarrow>
          if c = CHR ''*'' then
            glob_match rest v \<or>
            (case v of x # v' \<Rightarrow> x \<noteq> CHR ''/'' \<and> glob_match p v' | [] \<Rightarrow> False)
          else if c = CHR ''?'' then
            (case v of x # v' \<Rightarrow> x \<noteq> CHR ''/'' \<and> glob_match rest v' | [] \<Rightarrow> False)
          else (case v of x # v' \<Rightarrow> x = c \<and> glob_match rest v' | [] \<Rightarrow> False)
      | [] \<Rightarrow> v = [])"
  by pat_completeness auto
termination
  by (relation "measure (\<lambda>(p, v). length p + length v)") (use take_2_length in auto)

declare glob_match.simps [simp del]

definition object_matches :: "string \<Rightarrow> string \<Rightarrow> string \<Rightarrow> bool" where
  "object_matches pattern object_label resource \<longleftrightarrow>
     matches pattern object_label \<or> glob_match pattern resource"

text \<open>A query: subject label, action, object label, raw resource.\<close>

type_synonym mac_query = "string \<times> string \<times> string \<times> string"

definition rule_hit :: "PolicyRule \<Rightarrow> mac_query \<Rightarrow> bool" where
  "rule_hit r q = (case q of (subject_label, action, object_label, resource) \<Rightarrow>
     matches (rule_subject r) subject_label \<and> matches (rule_action r) action \<and>
     object_matches (rule_object r) object_label resource)"

definition decision_of :: "string \<Rightarrow> MacDecision" where
  "decision_of d = (if d = ''allow'' then Allow else if d = ''deny'' then Deny
                    else if d = ''audit'' then Audit else Deny)"

fun evaluate_from :: "MacEngine \<Rightarrow> nat \<Rightarrow> PolicyRule list \<Rightarrow> mac_query \<Rightarrow> MacDecision \<times> nat option" where
  "evaluate_from e idx [] q = ((if enforcing e then mac_default e else Allow), None)"
| "evaluate_from e idx (r # rs) q =
     (if rule_hit r q
      then ((if enforcing e then decision_of (rule_decision r) else Allow), Some idx)
      else evaluate_from e (Suc idx) rs q)"

definition evaluate ::
    "MacEngine \<Rightarrow> string \<Rightarrow> string \<Rightarrow> string \<Rightarrow> string \<Rightarrow> MacDecision \<times> nat option" where
  "evaluate e subject_label action object_label resource =
     evaluate_from e 0 (mac_rules e) (subject_label, action, object_label, resource)"

definition check :: "MacEngine \<Rightarrow> agent_id \<Rightarrow> string \<Rightarrow> string \<Rightarrow> MacDecision" where
  "check e a action resource =
     (let subject_label = (case map_of (labels e) a of Some l \<Rightarrow> l | None \<Rightarrow> ''unconfined'');
          object_label = (case map_of (resource_labels e) resource of Some l \<Rightarrow> l | None \<Rightarrow> ''unconfined'')
      in fst (evaluate e subject_label action object_label resource))"

definition is_enforcing :: "MacEngine \<Rightarrow> bool" where
  "is_enforcing e = enforcing e"

definition set_enforcing :: "MacEngine \<Rightarrow> bool \<Rightarrow> MacEngine" where
  "set_enforcing e b = e\<lparr>enforcing := b\<rparr>"

definition get_label :: "MacEngine \<Rightarrow> agent_id \<Rightarrow> string option" where
  "get_label e a = map_of (labels e) a"

section \<open>First match\<close>

lemma evaluate_from_eq:
  "evaluate_from e idx rs q =
     (case position (\<lambda>r. rule_hit r q) rs of
        Some i \<Rightarrow> ((if enforcing e then decision_of (rule_decision (rs ! i)) else Allow), Some (idx + i))
      | None \<Rightarrow> ((if enforcing e then mac_default e else Allow), None))"
  by (induction rs arbitrary: idx) (auto split: option.split)

text \<open>The engine provides the first-match contract, for each setting of its mode and default.\<close>

interpretation mac_fm: first_match rule_hit
  "\<lambda>r. if enforcing e then decision_of (rule_decision r) else Allow"
  "if enforcing e then mac_default e else Allow"
  "evaluate_from e 0"
  for e :: MacEngine
  by unfold_locales (simp_all add: evaluate_from_eq)

section \<open>Globs\<close>

text \<open>The reference meaning of a pattern: its tokens, and the strings each denotes.\<close>

datatype glob_token = AnyPath | AnySegment | AnyChar | Literal char

fun glob_tokens :: "string \<Rightarrow> glob_token list" where
  "glob_tokens [] = []"
| "glob_tokens [c] =
     [if c = CHR ''*'' then AnySegment else if c = CHR ''?'' then AnyChar else Literal c]"
| "glob_tokens (c # d # p) =
     (if c = CHR ''*'' \<and> d = CHR ''*'' then AnyPath # glob_tokens p
      else (if c = CHR ''*'' then AnySegment else if c = CHR ''?'' then AnyChar else Literal c)
             # glob_tokens (d # p))"

fun token_lang :: "glob_token \<Rightarrow> string set" where
  "token_lang AnyPath = UNIV"
| "token_lang AnySegment = {s. CHR ''/'' \<notin> set s}"
| "token_lang AnyChar = {[c] | c. c \<noteq> CHR ''/''}"
| "token_lang (Literal c) = {[c]}"

fun glob_lang :: "glob_token list \<Rightarrow> string set" where
  "glob_lang [] = {[]}"
| "glob_lang (t # ts) = {u @ w | u w. u \<in> token_lang t \<and> w \<in> glob_lang ts}"

lemma star_unfold:
  assumes step: "\<And>c u. c # u \<in> L \<longleftrightarrow> P c \<and> u \<in> L" and nil: "[] \<in> L"
  shows "v \<in> {u @ w | u w. u \<in> L \<and> w \<in> M} \<longleftrightarrow>
         v \<in> M \<or> (\<exists>x v'. v = x # v' \<and> P x \<and> v' \<in> {u @ w | u w. u \<in> L \<and> w \<in> M})"
  (is "?l = ?r")
proof
  assume ?l
  then obtain u w where uw: "v = u @ w" "u \<in> L" "w \<in> M" by blast
  show ?r
  proof (cases u)
    case Nil
    with uw show ?thesis by simp
  next
    case (Cons c u')
    with uw step have "v = c # (u' @ w)" "P c" "u' \<in> L" by auto
    with uw(3) show ?thesis by blast
  qed
next
  assume ?r
  then show ?l
  proof
    assume "v \<in> M"
    with nil show ?l by force
  next
    assume "\<exists>x v'. v = x # v' \<and> P x \<and> v' \<in> {u @ w | u w. u \<in> L \<and> w \<in> M}"
    then obtain x u w where "v = x # u @ w" "P x" "u \<in> L" "w \<in> M" by auto
    with step [of x u] have "v = (x # u) @ w" "x # u \<in> L" by auto
    with \<open>w \<in> M\<close> show ?l by blast
  qed
qed

lemma glob_lang_AnyPath:
  "v \<in> glob_lang (AnyPath # ts) \<longleftrightarrow>
   v \<in> glob_lang ts \<or> (\<exists>x v'. v = x # v' \<and> v' \<in> glob_lang (AnyPath # ts))"
  using star_unfold [of UNIV "\<lambda>_. True" v "glob_lang ts"] by simp

lemma glob_lang_AnySegment:
  "v \<in> glob_lang (AnySegment # ts) \<longleftrightarrow>
   v \<in> glob_lang ts \<or> (\<exists>x v'. v = x # v' \<and> x \<noteq> CHR ''/'' \<and> v' \<in> glob_lang (AnySegment # ts))"
  using star_unfold [of "{s. CHR ''/'' \<notin> set s}" "\<lambda>c. c \<noteq> CHR ''/''" v "glob_lang ts"] by auto

lemma glob_lang_single:
  "v \<in> glob_lang (AnyChar # ts) \<longleftrightarrow> (\<exists>x v'. v = x # v' \<and> x \<noteq> CHR ''/'' \<and> v' \<in> glob_lang ts)"
  "v \<in> glob_lang (Literal c # ts) \<longleftrightarrow> (\<exists>v'. v = c # v' \<and> v' \<in> glob_lang ts)"
  by (fastforce intro: exI [of _ "[_]"])+

lemma glob_tokens_cons:
  assumes "take 2 (c # rest) \<noteq> ''**''"
  shows "glob_tokens (c # rest) =
    (if c = CHR ''*'' then AnySegment else if c = CHR ''?'' then AnyChar else Literal c) # glob_tokens rest"
  using assms by (cases rest) auto

lemma glob_match_Nil: "glob_match [] v \<longleftrightarrow> v = []"
  by (subst glob_match.simps) simp

lemma glob_match_path:
  "glob_match (CHR ''*'' # CHR ''*'' # rest) v \<longleftrightarrow>
     glob_match rest v \<or> (\<exists>x v'. v = x # v' \<and> glob_match (CHR ''*'' # CHR ''*'' # rest) v')"
  by (subst glob_match.simps) (auto split: list.split)

lemma glob_match_star:
  assumes "take 2 (CHR ''*'' # rest) \<noteq> ''**''"
  shows "glob_match (CHR ''*'' # rest) v \<longleftrightarrow>
    glob_match rest v \<or> (\<exists>x v'. v = x # v' \<and> x \<noteq> CHR ''/'' \<and> glob_match (CHR ''*'' # rest) v')"
  using assms by (subst glob_match.simps) (auto split: list.split)

lemma glob_match_char:
  assumes "c \<noteq> CHR ''*''"
  shows "glob_match (c # rest) v \<longleftrightarrow>
    (\<exists>x v'. v = x # v' \<and> (if c = CHR ''?'' then x \<noteq> CHR ''/'' else x = c) \<and> glob_match rest v')"
  using assms by (subst glob_match.simps) (auto split: list.split)

lemma glob_lang_star:
  assumes "take 2 (CHR ''*'' # rest) \<noteq> ''**''"
  shows "v \<in> glob_lang (glob_tokens (CHR ''*'' # rest)) \<longleftrightarrow> v \<in> glob_lang (glob_tokens rest) \<or>
    (\<exists>x v'. v = x # v' \<and> x \<noteq> CHR ''/'' \<and> v' \<in> glob_lang (glob_tokens (CHR ''*'' # rest)))"
proof -
  have tok: "glob_tokens (CHR ''*'' # rest) = AnySegment # glob_tokens rest"
    using glob_tokens_cons [OF assms] by simp
  show ?thesis unfolding tok by (rule glob_lang_AnySegment)
qed

lemma glob_lang_char:
  assumes "c \<noteq> CHR ''*''"
  shows "v \<in> glob_lang (glob_tokens (c # rest)) \<longleftrightarrow>
    (\<exists>x v'. v = x # v' \<and> (if c = CHR ''?'' then x \<noteq> CHR ''/'' else x = c) \<and>
            v' \<in> glob_lang (glob_tokens rest))"
proof -
  have tok: "glob_tokens (c # rest) = (if c = CHR ''?'' then AnyChar else Literal c) # glob_tokens rest"
    using glob_tokens_cons [of c rest] assms by simp
  show ?thesis unfolding tok
    using glob_lang_single(1) [of v "glob_tokens rest"] glob_lang_single(2) [of v c "glob_tokens rest"]
    by (auto simp del: glob_lang.simps)
qed

lemma glob_match_iff_lang: "glob_match p v \<longleftrightarrow> v \<in> glob_lang (glob_tokens p)"
proof (induction p v rule: glob_match.induct)
  case (1 p v)
  show ?case
  proof (cases "take 2 p = ''**''")
    case True
    then obtain rest where p: "p = CHR ''*'' # CHR ''*'' # rest"
      by (cases p; cases "tl p") auto
    have tok: "glob_tokens p = AnyPath # glob_tokens rest" by (simp add: p)
    have IH1: "glob_match rest v \<longleftrightarrow> v \<in> glob_lang (glob_tokens rest)"
      using "1.IH"(1) [OF True] by (simp add: p)
    have IH2: "glob_match p v' \<longleftrightarrow> v' \<in> glob_lang (glob_tokens p)" if "v = x # v'" for x v'
      using "1.IH"(2) [OF True that] .
    have "glob_match p v \<longleftrightarrow> glob_match rest v \<or> (\<exists>x v'. v = x # v' \<and> glob_match p v')"
      unfolding p by (rule glob_match_path)
    also have "\<dots> \<longleftrightarrow> v \<in> glob_lang (glob_tokens rest) \<or>
        (\<exists>x v'. v = x # v' \<and> v' \<in> glob_lang (glob_tokens p))"
      using IH1 IH2 by blast
    also have "\<dots> \<longleftrightarrow> v \<in> glob_lang (glob_tokens p)"
      unfolding tok by (rule glob_lang_AnyPath [symmetric])
    finally show ?thesis .
  next
    case False
    show ?thesis
    proof (cases p)
      case Nil
      then show ?thesis by (simp add: glob_match_Nil)
    next
      case (Cons c rest)
      show ?thesis
      proof (cases "c = CHR ''*''")
        case True
        note p = Cons [unfolded True]
        note star = False [unfolded p]
        have IH1: "glob_match rest v \<longleftrightarrow> v \<in> glob_lang (glob_tokens rest)"
          using "1.IH"(3) [OF False p refl] .
        have IH2: "glob_match p v' \<longleftrightarrow> v' \<in> glob_lang (glob_tokens p)" if "v = x # v'" for x v'
          using "1.IH"(4) [OF False p refl that] .
        show ?thesis
          using glob_match_star [OF star, of v] glob_lang_star [OF star, of v] IH1 IH2 unfolding p
          by blast
      next
        case neq: False
        have IH: "glob_match rest v' \<longleftrightarrow> v' \<in> glob_lang (glob_tokens rest)" if "v = x # v'" for x v'
          using "1.IH"(5) [OF False Cons neq _ that] "1.IH"(6) [OF False Cons neq _ that] by blast
        show ?thesis
          using glob_match_char [OF neq, of rest v] glob_lang_char [OF neq, of v rest] IH unfolding Cons
          by blast
      qed
    qed
  qed
qed

lemma glob_literal:
  assumes "CHR ''*'' \<notin> set p" and "CHR ''?'' \<notin> set p"
  shows "glob_match p v \<longleftrightarrow> v = p"
  using assms
proof (induction p arbitrary: v)
  case (Cons c p)
  then have "c \<noteq> CHR ''*''" "c \<noteq> CHR ''?''" "\<And>v. glob_match p v \<longleftrightarrow> v = p" by auto
  with glob_match_char [of c p v] show ?case by (simp only: if_False) blast
qed (simp add: glob_match_Nil)

lemma glob_any: "glob_match ''**'' v"
  by (simp add: glob_match_iff_lang)

text \<open>Separators: only the double star can change how many there are.\<close>

lemma token_slashes:
  "t \<noteq> AnyPath \<Longrightarrow> u \<in> token_lang t \<Longrightarrow>
   count_list u (CHR ''/'') = (if t = Literal (CHR ''/'') then 1 else 0)"
  by (cases t) (auto simp: count_list_0_iff)

lemma lang_slashes:
  "AnyPath \<notin> set ts \<Longrightarrow> v \<in> glob_lang ts \<Longrightarrow>
   count_list v (CHR ''/'') = count_list ts (Literal (CHR ''/''))"
proof (induction ts arbitrary: v)
  case (Cons t ts)
  then obtain u w where "v = u @ w" "u \<in> token_lang t" "w \<in> glob_lang ts" by auto
  moreover from this(2) Cons.prems(1) have
    "count_list u (CHR ''/'') = (if t = Literal (CHR ''/'') then 1 else 0)"
    by (intro token_slashes) auto
  ultimately show ?case using Cons.IH [of w] Cons.prems(1) by simp
qed simp

lemma tokens_slashes: "count_list (glob_tokens p) (Literal (CHR ''/'')) = count_list p (CHR ''/'')"
  by (induction p rule: glob_tokens.induct) auto

lemma no_double_star_tokens:
  assumes "\<And>xs ys. p \<noteq> xs @ ''**'' @ ys" shows "AnyPath \<notin> set (glob_tokens p)"
  using assms
proof (induction p rule: glob_tokens.induct)
  case (3 c d p)
  have "\<not> (c = CHR ''*'' \<and> d = CHR ''*'')" using "3.prems" [of "[]" p] by auto
  moreover have "d # p \<noteq> xs @ ''**'' @ ys" for xs ys using "3.prems" [of "c # xs" ys] by auto
  ultimately show ?case using "3.IH"(2) by auto
qed auto

section \<open>Properties\<close>


text \<open>
  A pattern without a double star never crosses path segments: whatever it accepts
  has exactly as many separators as the pattern itself.
\<close>

theorem single_star_stays_in_segment:
  assumes "\<And>xs ys. pattern \<noteq> xs @ ''**'' @ ys" and "glob_match pattern resource"
  shows "count_list resource (CHR ''/'') = count_list pattern (CHR ''/'')"
  using lang_slashes [OF no_double_star_tokens [OF assms(1)]] assms(2)
  by (simp add: glob_match_iff_lang tokens_slashes)

lemma etc_pattern_plain: "''/etc/*'' \<noteq> xs @ ''**'' @ ys"
proof
  assume "''/etc/*'' = xs @ ''**'' @ ys"
  then have "count_list ''/etc/*'' (CHR ''*'') = count_list (xs @ ''**'' @ ys) (CHR ''*'')" by simp
  then show False by simp
qed

theorem single_star_stays_in_segment_witness:
  "glob_match ''/etc/*'' ''/etc/passwd'' \<and> count_list ''/etc/passwd'' (CHR ''/'') = 2"
proof -
  have "glob_match ''/etc/*'' ''/etc/passwd''" by code_simp
  with single_star_stays_in_segment [OF etc_pattern_plain this] show ?thesis by simp
qed

text \<open>
  C17: Enforcing mode is default deny and first match: an access is permitted only if some
  rule whose decision is allow or audit matches and no earlier rule matches; and the
  decision is the one of the first matching rule.
\<close>

theorem enforced_permit_has_rule:
  assumes "enforcing e" and "mac_default e = Deny" and "fst (evaluate e s a l r) \<noteq> Deny"
  shows "\<exists>i<length (mac_rules e).
      rule_hit (mac_rules e ! i) (s, a, l, r)
    \<and> (\<forall>j<i. \<not> rule_hit (mac_rules e ! j) (s, a, l, r))
    \<and> rule_decision (mac_rules e ! i) \<in> {''allow'', ''audit''}
    \<and> evaluate e s a l r = (decision_of (rule_decision (mac_rules e ! i)), Some i)"
proof -
  let ?q = "(s, a, l, r)"
  from assms have "snd (evaluate e s a l r) \<noteq> None"
    by (auto simp: evaluate_def evaluate_from_eq split: option.splits)
  then obtain i where i: "snd (evaluate_from e 0 (mac_rules e) ?q) = Some i"
    by (auto simp: evaluate_def)
  then have hit: "i < length (mac_rules e)" "rule_hit (mac_rules e ! i) ?q"
      "\<forall>j<i. \<not> rule_hit (mac_rules e ! j) ?q"
    by (auto simp: mac_fm.decided_by_rule)
  have "position (\<lambda>r. rule_hit r ?q) (mac_rules e) = Some i"
    using i by (simp add: mac_fm.decide_index)
  then have ev: "evaluate e s a l r = (decision_of (rule_decision (mac_rules e ! i)), Some i)"
    using assms(1) by (simp add: evaluate_def evaluate_from_eq)
  with assms(3) have "rule_decision (mac_rules e ! i) \<in> {''allow'', ''audit''}"
    by (auto simp: decision_of_def split: if_splits)
  with hit ev show ?thesis by blast
qed

definition demo_rule :: PolicyRule where
  "demo_rule = \<lparr>rule_subject = ''*'', rule_action = ''read'', rule_object = ''/etc/**'', rule_decision = ''allow''\<rparr>"

lemma demo_eval:
  "fst (evaluate (load_policy (mac_new True) [demo_rule]) ''a'' ''read'' ''l'' ''/etc/x'') = Allow"
  by code_simp

theorem enforced_permit_has_rule_witness:
  "\<exists>i<length (mac_rules (load_policy (mac_new True) [demo_rule])).
     evaluate (load_policy (mac_new True) [demo_rule]) ''a'' ''read'' ''l'' ''/etc/x''
       = (decision_of (rule_decision (mac_rules (load_policy (mac_new True) [demo_rule]) ! i)), Some i)"
proof -
  have "enforcing (load_policy (mac_new True) [demo_rule])"
    "mac_default (load_policy (mac_new True) [demo_rule]) = Deny"
    by (simp_all add: load_policy_def mac_new_def)
  moreover have "fst (evaluate (load_policy (mac_new True) [demo_rule]) ''a'' ''read'' ''l'' ''/etc/x'') \<noteq> Deny"
    by (simp add: demo_eval)
  ultimately show ?thesis using enforced_permit_has_rule by blast
qed

end
