(* ===== verification/Resources.thy ===== *)
theory Resources
  imports Prelude
begin

text \<open>
  Resource requests (\<open>crates/kernel/src/resources.rs\<close>): the table of provider
  operations and the argument each one is aimed at, lexical normalisation of
  filesystem targets, and the size limits on request parameters. JSON values are
  the \<open>serde_json::Value\<close> tree; a number is its literal.
\<close>

section \<open>JSON values\<close>

datatype json =
    JNull
  | JBool bool
  | JNumber string
  | JString string
  | JArray "json list"
  | JObject "(string \<times> json) list"

fun as_str :: "json \<Rightarrow> string option" where
  "as_str (JString s) = Some s"
| "as_str _ = None"

fun as_object :: "json \<Rightarrow> (string \<times> json) list option" where
  "as_object (JObject kvs) = Some kvs"
| "as_object _ = None"

fun as_array :: "json \<Rightarrow> json list option" where
  "as_array (JArray vs) = Some vs"
| "as_array _ = None"

definition json_get :: "json \<Rightarrow> string \<Rightarrow> json option" where
  "json_get v k = Option.bind (as_object v) (\<lambda>kvs. map_of kvs k)"

section \<open>Operations and their targets\<close>

datatype ResourceType =
    Filesystem | Application | Browser | Peripheral | Network | Ipc | Memory

text \<open>The \<open>Debug\<close> form of a resource type, which is also its serialised form.\<close>

fun resource_debug :: "ResourceType \<Rightarrow> string" where
  "resource_debug Filesystem = ''Filesystem''"
| "resource_debug Application = ''Application''"
| "resource_debug Browser = ''Browser''"
| "resource_debug Peripheral = ''Peripheral''"
| "resource_debug Network = ''Network''"
| "resource_debug Ipc = ''Ipc''"
| "resource_debug Memory = ''Memory''"

datatype ResourceError =
    ProviderNotFound string
  | UnsupportedOperation string string
  | OperationFailed string
  | Timeout

fun resource_error_display :: "ResourceError \<Rightarrow> string" where
  "resource_error_display (ProviderNotFound s) = ''Resource provider not found: '' @ s"
| "resource_error_display (UnsupportedOperation r op) = ''Unsupported resource operation: '' @ r @ ''.'' @ op"
| "resource_error_display (OperationFailed s) = ''Resource operation failed: '' @ s"
| "resource_error_display Timeout = ''Resource operation timed out''"

datatype ProviderTargetSpec = ArgumentTarget string | ConstantTarget string

definition provider_target_spec :: "ResourceType \<Rightarrow> string \<Rightarrow> ProviderTargetSpec option" where
  "provider_target_spec rt op = (case rt of
     Filesystem \<Rightarrow>
       if op \<in> {''read'', ''read_bytes'', ''write'', ''write_bytes'', ''create'', ''create_dir'',
                 ''edit'', ''delete'', ''list'', ''stat''} then Some (ArgumentTarget ''path'') else None
   | Network \<Rightarrow>
       if op \<in> {''get'', ''post'', ''put'', ''delete'', ''browse''}
       then Some (ArgumentTarget ''url'') else None
   | Browser \<Rightarrow>
       if op \<in> {''navigate'', ''click'', ''type'', ''read''} then Some (ArgumentTarget ''url'') else None
   | Application \<Rightarrow>
       if op = ''launch'' then Some (ArgumentTarget ''command'')
       else if op \<in> {''install'', ''uninstall''} then Some (ArgumentTarget ''package'')
       else if op \<in> {''credential'', ''credential_access'', ''read_credential''}
       then Some (ArgumentTarget ''credential'') else None
   | Ipc \<Rightarrow>
       if op \<in> {''send'', ''delegate''} then Some (ArgumentTarget ''to'')
       else if op \<in> {''delegation_status'', ''complete_delegation''} then Some (ArgumentTarget ''task_id'')
       else if op \<in> {''receive'', ''stat''} then Some (ConstantTarget ''ipc:self'')
       else if op = ''discover'' then Some (ConstantTarget ''ipc:namespace'') else None
   | Memory \<Rightarrow>
       if op \<in> {''store'', ''query'', ''stat''} then Some (ConstantTarget ''memory:self'')
       else if op \<in> {''kv_get'', ''kv_put'', ''kv_stat''} then Some (ArgumentTarget ''key'')
       else if op \<in> {''kv_list'', ''kv_dir_stat''} then Some (ConstantTarget ''kv:self'') else None
   | Peripheral \<Rightarrow>
       if op \<in> {''capture_image'', ''record_audio'', ''play_audio''} then Some (ArgumentTarget ''device'')
       else if op = ''print'' then Some (ArgumentTarget ''printer'')
       else if op \<in> {''credential'', ''credential_access'', ''read_credential''}
       then Some (ArgumentTarget ''credential'') else None)"

definition quoted :: "string \<Rightarrow> string" where
  "quoted s = [CHR 0x27] @ s @ [CHR 0x27]"

text \<open>A string parameter that is present, a string, and not blank.\<close>

definition nonblank_str :: "json \<Rightarrow> string \<Rightarrow> string option" where
  "nonblank_str params k =
     Option.bind (json_get params k) (\<lambda>v. Option.bind (as_str v)
       (\<lambda>s. if \<not> trim_is_empty s then Some s else None))"

definition provider_target :: "ResourceType \<Rightarrow> string \<Rightarrow> json \<Rightarrow> ResourceError + string" where
  "provider_target rt op params = (case provider_target_spec rt op of
     Some (ArgumentTarget k) \<Rightarrow>
       ok_or (nonblank_str params k)
         (OperationFailed (''invalid or missing provider target '' @ quoted k))
   | Some (ConstantTarget t) \<Rightarrow> Inr t
   | None \<Rightarrow> Inl (UnsupportedOperation (resource_debug rt) op))"

section \<open>Filesystem targets\<close>

definition is_ascii_alphabetic :: "char \<Rightarrow> bool" where
  "is_ascii_alphabetic c = (let n = (of_char c :: nat) in 65 \<le> n \<and> n \<le> 90 \<or> 97 \<le> n \<and> n \<le> 122)"

definition backslash :: char where "backslash = CHR 0x5C"

definition drive_relative :: "string \<Rightarrow> bool" where
  "drive_relative s = (case s of
      a # b # r \<Rightarrow> is_ascii_alphabetic a \<and> b = CHR '':'' \<and> (case r of c # _ \<Rightarrow> c \<noteq> CHR ''/'' | [] \<Rightarrow> True)
    | _ \<Rightarrow> False)"

fun collect_segments :: "string list \<Rightarrow> string list option" where
  "collect_segments [] = Some []"
| "collect_segments (seg # segs) =
     (if seg = [] \<or> seg = ''.'' then collect_segments segs
      else if seg = ''..'' then None
      else map_option ((#) seg) (collect_segments segs))"

definition normalize_filesystem_target :: "string \<Rightarrow> ResourceError + string" where
  "normalize_filesystem_target target =
     (if trim_is_empty target \<or> CHR 0x00 \<in> set target
      then Inl (OperationFailed ''invalid filesystem target'')
      else let portable = map (\<lambda>c. if c = backslash then CHR ''/'' else c) target in
        if take 2 portable = ''//''
        then Inl (OperationFailed ''UNC and device filesystem targets are not supported'')
        else if drive_relative portable
        then Inl (OperationFailed ''drive-relative filesystem targets are not supported'')
        else let rooted = take 1 portable = ''/'' in
          case collect_segments (split_on (CHR ''/'') portable) of
            None \<Rightarrow> Inl (OperationFailed ''filesystem parent traversal is not allowed'')
          | Some segments \<Rightarrow>
              let body = join_with ''/'' segments in
              Inr (if rooted then (if body = [] then ''/'' else CHR ''/'' # body)
                   else (if body = [] then ''.'' else body)))"

section \<open>Size limits\<close>

definition MAX_RESOURCE_OPERATION_BYTES :: nat where "MAX_RESOURCE_OPERATION_BYTES = 128"
definition MAX_RESOURCE_JSON_DEPTH :: nat where "MAX_RESOURCE_JSON_DEPTH = 64"
definition MAX_RESOURCE_JSON_NODES :: nat where "MAX_RESOURCE_JSON_NODES = 65536"
definition MAX_RESOURCE_JSON_STRING_BYTES :: nat where
  "MAX_RESOURCE_JSON_STRING_BYTES = 4 * 1024 * 1024"
definition MAX_RESOURCE_JSON_TOTAL_STRING_BYTES :: nat where
  "MAX_RESOURCE_JSON_TOTAL_STRING_BYTES = 8 * 1024 * 1024"

lemmas limit_defs = MAX_RESOURCE_JSON_DEPTH_def MAX_RESOURCE_JSON_NODES_def
  MAX_RESOURCE_JSON_STRING_BYTES_def MAX_RESOURCE_JSON_TOTAL_STRING_BYTES_def

text \<open>The entries of an object, pushed one by one; a key that is too long stops.\<close>

fun push_entries ::
    "string \<Rightarrow> nat \<Rightarrow> (string \<times> json) list \<Rightarrow> (json \<times> nat) list \<Rightarrow> nat
     \<Rightarrow> ResourceError + (json \<times> nat) list \<times> nat" where
  "push_entries surface depth [] stack string_bytes = Inr (stack, string_bytes)"
| "push_entries surface depth ((key, v) # kvs) stack string_bytes =
     (if length key > MAX_RESOURCE_JSON_STRING_BYTES
      then Inl (OperationFailed (surface @ '' contain a key larger than 4194304 bytes''))
      else push_entries surface depth kvs ((v, depth + 1) # stack) (usat_add string_bytes (length key)))"

definition stack_size :: "(json \<times> nat) list \<Rightarrow> nat" where
  "stack_size st = sum_list (map (\<lambda>e. Suc (size (fst e))) st)"

lemma push_entries_stack:
  "push_entries surface d kvs st sb = Inr (st', sb') \<Longrightarrow>
   st' = rev (map (\<lambda>(k, v). (v, d + 1)) kvs) @ st"
  by (induction surface d kvs st sb arbitrary: st' sb' rule: push_entries.induct) (auto split: if_splits)

lemma sum_size_values: "sum_list (map (\<lambda>kv. Suc (size (snd kv))) kvs) \<le> size_list (size_prod (\<lambda>_. 0) size) kvs"
  by (induction kvs) auto

lemma sum_size_array: "sum_list (map (\<lambda>v. Suc (size v)) vs) \<le> size_list size vs"
  by (induction vs) auto

lemma sum_list_map_rev [simp]: "sum_list (map f (rev xs)) = sum_list (map f xs)" for f :: "_ \<Rightarrow> nat"
  by (simp flip: rev_map add: sum_list_rev)

text \<open>The traversal of \<open>validate_resource_json\<close>; the head of the stack is its top.\<close>

function validate_loop :: "string \<Rightarrow> (json \<times> nat) list \<Rightarrow> nat \<Rightarrow> nat \<Rightarrow> ResourceError + unit" where
  "validate_loop surface [] nodes string_bytes = Inr ()"
| "validate_loop surface ((val, depth) # stack) nodes string_bytes =
     (if depth > MAX_RESOURCE_JSON_DEPTH
      then Inl (OperationFailed (surface @ '' exceed the maximum JSON depth of 64''))
      else let nodes = usat_add nodes 1 in
        if nodes > MAX_RESOURCE_JSON_NODES
        then Inl (OperationFailed (surface @ '' exceed the maximum JSON node count of 65536''))
        else case (case val of
            JString s \<Rightarrow>
              if length s > MAX_RESOURCE_JSON_STRING_BYTES
              then Inl (OperationFailed (surface @ '' contain a string larger than 4194304 bytes''))
              else Inr (stack, usat_add string_bytes (length s))
          | JArray vs \<Rightarrow> Inr (rev (map (\<lambda>v. (v, depth + 1)) vs) @ stack, string_bytes)
          | JObject kvs \<Rightarrow> push_entries surface depth kvs stack string_bytes
          | _ \<Rightarrow> Inr (stack, string_bytes)) of
            Inl e \<Rightarrow> Inl e
          | Inr (stack', string_bytes') \<Rightarrow>
              if string_bytes' > MAX_RESOURCE_JSON_TOTAL_STRING_BYTES
              then Inl (OperationFailed (surface @ '' exceed 8388608 total string bytes''))
              else validate_loop surface stack' nodes string_bytes')"
  by pat_completeness auto
termination
proof (relation "measure (\<lambda>(_, st, _, _). stack_size st)", simp)
  fix surface val depth stack nodes string_bytes x y stack' string_bytes'
  assume res: "(case val of
            JString s \<Rightarrow>
              if length s > MAX_RESOURCE_JSON_STRING_BYTES
              then Inl (OperationFailed (surface @ '' contain a string larger than 4194304 bytes''))
              else Inr (stack, usat_add string_bytes (length s))
          | JArray vs \<Rightarrow> Inr (rev (map (\<lambda>v. (v, depth + 1)) vs) @ stack, string_bytes)
          | JObject kvs \<Rightarrow> push_entries surface depth kvs stack string_bytes
          | _ \<Rightarrow> Inr (stack, string_bytes)) = Inr y" and y: "(stack', string_bytes') = y"
  have "stack_size stack' < Suc (size val) + stack_size stack"
  proof (cases val)
    case (JArray vs)
    with res y show ?thesis
      using sum_size_array [of vs] by (auto simp: stack_size_def comp_def rev_map)
  next
    case (JObject kvs)
    with res y have "stack' = rev (map (\<lambda>(k, v). (v, depth + 1)) kvs) @ stack"
      by (auto dest: push_entries_stack)
    then show ?thesis using sum_size_values [of kvs] JObject
      by (auto simp: stack_size_def comp_def rev_map case_prod_unfold)
  qed (use res y in \<open>auto simp: stack_size_def split: if_splits\<close>)
  then show "((surface, stack', x, string_bytes'), surface, (val, depth) # stack, nodes, string_bytes)
      \<in> measure (\<lambda>(_, st, _, _). stack_size st)"
    by (simp add: stack_size_def)
qed

definition validate_resource_json :: "json \<Rightarrow> string \<Rightarrow> ResourceError + unit" where
  "validate_resource_json val surface = validate_loop surface [(val, 0)] 0 0"

definition validate_resource_request :: "string \<Rightarrow> json \<Rightarrow> ResourceError + unit" where
  "validate_resource_request operation parameters =
     (if length operation > MAX_RESOURCE_OPERATION_BYTES \<or> CHR 0x00 \<in> set operation
      then Inl (OperationFailed ''resource operation exceeds 128 bytes or contains NUL'')
      else validate_resource_json parameters ''resource request parameters'')"

section \<open>Admission proofs\<close>

text \<open>
  The serialiser \<open>to_vec\<close> of \<open>serde_json\<close>, the digest \<open>sha256\<close> of \<open>ring\<close> and the textual
  form \<open>show_uuid\<close> of a \<open>Uuid\<close> are arguments. An object literal lists its keys in the sorted
  order in which \<open>serde_json\<close> keeps them.
\<close>

type_synonym serializer = "json \<Rightarrow> string + string"
type_synonym digest = "string \<Rightarrow> u8 list"

definition hex_digit :: "nat \<Rightarrow> char" where
  "hex_digit n = ''0123456789abcdef'' ! n"

definition hex_byte :: "u8 \<Rightarrow> string" where
  "hex_byte b = [hex_digit (unat b div 16), hex_digit (unat b mod 16)]"

definition opaque_identity :: "digest \<Rightarrow> string \<Rightarrow> string" where
  "opaque_identity sha256 val = ''sha256:'' @ concat (map hex_byte (sha256 val))"

definition request_json :: "(uuid \<Rightarrow> string) \<Rightarrow> uuid \<Rightarrow> ResourceType \<Rightarrow> string \<Rightarrow> json \<Rightarrow> json" where
  "request_json show_uuid agent rt op params = JObject
     [(''agent_id'', JString (show_uuid agent)), (''operation'', JString op), (''parameters'', params),
      (''resource_type'', JString (resource_debug rt)), (''version'', JNumber ''1'')]"

definition request_identity ::
    "serializer \<Rightarrow> digest \<Rightarrow> (uuid \<Rightarrow> string) \<Rightarrow> uuid \<Rightarrow> ResourceType \<Rightarrow> string \<Rightarrow> json \<Rightarrow> string + string" where
  "request_identity to_vec sha256 show_uuid agent rt op params =
     (case validate_resource_request op params of
        Inl e \<Rightarrow> Inl (resource_error_display e)
      | Inr _ \<Rightarrow> (case to_vec (request_json show_uuid agent rt op params) of
            Inl e \<Rightarrow> Inl (''provider request serialization failed: '' @ e)
          | Inr bytes \<Rightarrow> Inr (opaque_identity sha256 bytes)))"

text \<open>A peripheral lease is its key in the activity map.\<close>

type_synonym lease = "uuid \<times> string \<times> uuid"

record GateAdmissionProof =
  proof_agent :: uuid
  proof_request_identity :: string
  approval_satisfied :: bool
  peripheral_activity :: "lease option"

record ResourceRequest =
  req_agent :: uuid
  req_type :: ResourceType
  req_operation :: string
  req_parameters :: json
  sandbox_context :: "uuid option"
  gate_admission :: "GateAdmissionProof option"

text \<open>What \<open>verify\<close> releases of a proof: \<open>approval_satisfied\<close> and the lease.\<close>

definition verify_proof ::
    "serializer \<Rightarrow> digest \<Rightarrow> (uuid \<Rightarrow> string) \<Rightarrow> GateAdmissionProof \<Rightarrow> ResourceRequest
     \<Rightarrow> ResourceError + bool \<times> lease option" where
  "verify_proof to_vec sha256 show_uuid p request =
     (case request_identity to_vec sha256 show_uuid (req_agent request) (req_type request)
        (req_operation request) (req_parameters request) of
        Inl e \<Rightarrow> Inl (OperationFailed e)
      | Inr actual \<Rightarrow>
          if proof_agent p \<noteq> req_agent request \<or> proof_request_identity p \<noteq> actual
          then Inl (OperationFailed ''gate admission proof does not match immutable agent request'')
          else Inr (approval_satisfied p, peripheral_activity p))"

text \<open>The activity map: live leases and whether each one has been cancelled.\<close>

type_synonym activity_map = "(lease \<times> bool) list"

definition lease_new :: "activity_map \<Rightarrow> uuid \<Rightarrow> string \<Rightarrow> uuid \<Rightarrow> lease \<times> activity_map" where
  "lease_new activity agent identity fresh =
     ((agent, identity, fresh), AList.update (agent, identity, fresh) False activity)"

definition lease_drop :: "activity_map \<Rightarrow> lease \<Rightarrow> activity_map" where
  "lease_drop activity key = AList.delete key activity"

section \<open>What the limits mean\<close>

fun json_depth :: "json \<Rightarrow> nat" where
  "json_depth (JArray vs) = Max (insert 0 (set (map (\<lambda>v. Suc (json_depth v)) vs)))"
| "json_depth (JObject kvs) = Max (insert 0 (set (map (\<lambda>(k, v). Suc (json_depth v)) kvs)))"
| "json_depth _ = 0"

fun json_nodes :: "json \<Rightarrow> nat" where
  "json_nodes (JArray vs) = Suc (sum_list (map json_nodes vs))"
| "json_nodes (JObject kvs) = Suc (sum_list (map (\<lambda>(k, v). json_nodes v) kvs))"
| "json_nodes _ = 1"

fun json_bytes :: "json \<Rightarrow> nat" where
  "json_bytes (JString s) = length s"
| "json_bytes (JArray vs) = sum_list (map json_bytes vs)"
| "json_bytes (JObject kvs) = sum_list (map (\<lambda>(k, v). length k + json_bytes v) kvs)"
| "json_bytes _ = 0"

fun json_strings_short :: "json \<Rightarrow> bool" where
  "json_strings_short (JString s) = (length s \<le> MAX_RESOURCE_JSON_STRING_BYTES)"
| "json_strings_short (JArray vs) = (\<forall>v\<in>set vs. json_strings_short v)"
| "json_strings_short (JObject kvs) =
     (\<forall>kv\<in>set kvs. length (fst kv) \<le> MAX_RESOURCE_JSON_STRING_BYTES \<and> json_strings_short (snd kv))"
| "json_strings_short _ = True"

definition stack_ok :: "(json \<times> nat) list \<Rightarrow> bool" where
  "stack_ok st \<longleftrightarrow> (\<forall>(v, d)\<in>set st. d + json_depth v \<le> MAX_RESOURCE_JSON_DEPTH \<and> json_strings_short v)"

definition stack_nodes :: "(json \<times> nat) list \<Rightarrow> nat" where
  "stack_nodes st = sum_list (map (json_nodes \<circ> fst) st)"

definition stack_bytes :: "(json \<times> nat) list \<Rightarrow> nat" where
  "stack_bytes st = sum_list (map (json_bytes \<circ> fst) st)"

lemmas stack_defs = stack_ok_def stack_nodes_def stack_bytes_def

lemma Max_insert_0_le: "finite A \<Longrightarrow> d + Max (insert (0::nat) A) \<le> k \<longleftrightarrow> d \<le> k \<and> (\<forall>x\<in>A. d + x \<le> k)"
proof (cases "d \<le> k")
  case True
  assume "finite A"
  then have "Max (insert 0 A) \<le> k - d \<longleftrightarrow> (\<forall>x\<in>A. x \<le> k - d)" by simp
  with True show ?thesis by (simp add: le_diff_conv2 add.commute)
qed auto

lemma push_entries_eq:
  assumes "sb \<le> usize_max"
  shows "push_entries surface d kvs st sb =
    (if \<forall>kv\<in>set kvs. length (fst kv) \<le> MAX_RESOURCE_JSON_STRING_BYTES
     then Inr (rev (map (\<lambda>(k, v). (v, d + 1)) kvs) @ st,
               min (sb + sum_list (map (\<lambda>kv. length (fst kv)) kvs)) usize_max)
     else Inl (OperationFailed (surface @ '' contain a key larger than 4194304 bytes'')))"
  using assms
proof (induction surface d kvs st sb rule: push_entries.induct)
  case (2 surface d key v kvs st sb)
  have "usat_add sb (length key) \<le> usize_max" by (simp add: usat_add_def)
  moreover have "min (usat_add sb (length key) + n) usize_max = min (sb + (length key + n)) usize_max" for n
    by (simp add: usat_add_def)
  ultimately show ?case using 2 by auto
qed (simp add: min_def)

lemma big_limits: "MAX_RESOURCE_JSON_NODES < usize_max" "MAX_RESOURCE_JSON_TOTAL_STRING_BYTES < usize_max"
  by (simp_all add: limit_defs usize_max_def)

text \<open>One popped value: what is pushed for it, and what it adds to the byte count.\<close>

definition children :: "json \<Rightarrow> json list" where
  "children v = (case v of JArray vs \<Rightarrow> vs | JObject kvs \<Rightarrow> map snd kvs | _ \<Rightarrow> [])"

definition own_bytes :: "json \<Rightarrow> nat" where
  "own_bytes v = (case v of JString s \<Rightarrow> length s | JObject kvs \<Rightarrow> sum_list (map (\<lambda>kv. length (fst kv)) kvs)
                  | _ \<Rightarrow> 0)"

definition own_short :: "json \<Rightarrow> bool" where
  "own_short v = (case v of JString s \<Rightarrow> length s \<le> MAX_RESOURCE_JSON_STRING_BYTES
      | JObject kvs \<Rightarrow> \<forall>kv\<in>set kvs. length (fst kv) \<le> MAX_RESOURCE_JSON_STRING_BYTES | _ \<Rightarrow> True)"

lemma json_nodes_children: "json_nodes v = Suc (sum_list (map json_nodes (children v)))"
  by (cases v) (simp_all add: children_def comp_def case_prod_unfold)

lemma json_bytes_children: "json_bytes v = own_bytes v + sum_list (map json_bytes (children v))"
  by (cases v) (simp_all add: children_def own_bytes_def comp_def case_prod_unfold sum_list_addf)

lemma json_short_children: "json_strings_short v \<longleftrightarrow> own_short v \<and> (\<forall>c\<in>set (children v). json_strings_short c)"
  by (cases v) (auto simp: children_def own_short_def)

lemma json_depth_children:
  "d + json_depth v \<le> k \<longleftrightarrow> d \<le> k \<and> (\<forall>c\<in>set (children v). Suc d + json_depth c \<le> k)"
  by (cases v) (auto simp: children_def Max_insert_0_le case_prod_beta simp del: Max_insert)

lemma validate_step:
  assumes "sb \<le> MAX_RESOURCE_JSON_TOTAL_STRING_BYTES"
  shows "validate_loop surface ((v, d) # st) nodes sb = Inr () \<longleftrightarrow>
    d \<le> MAX_RESOURCE_JSON_DEPTH \<and> nodes < MAX_RESOURCE_JSON_NODES \<and> own_short v \<and>
    sb + own_bytes v \<le> MAX_RESOURCE_JSON_TOTAL_STRING_BYTES \<and>
    validate_loop surface (rev (map (\<lambda>c. (c, d + 1)) (children v)) @ st) (Suc nodes) (sb + own_bytes v) = Inr ()"
proof (cases "d \<le> MAX_RESOURCE_JSON_DEPTH \<and> nodes < MAX_RESOURCE_JSON_NODES")
  case True
  then have n: "usat_add nodes (Suc 0) = Suc nodes"
    using big_limits(1) by (simp add: usat_add_exact)
  from assms have sb: "sb \<le> usize_max" using big_limits(2) by simp
  let ?T = MAX_RESOURCE_JSON_TOTAL_STRING_BYTES
  have sat: "min x usize_max \<le> ?T \<longleftrightarrow> x \<le> ?T" "x \<le> ?T \<Longrightarrow> min x usize_max = x" for x
    using big_limits(2) by auto
  show ?thesis
    using True assms sat(1) [of "sb + own_bytes v"] sat(2) [of "sb + own_bytes v"]
    by (cases v) (auto simp: n Let_def push_entries_eq [OF sb] children_def own_bytes_def own_short_def usat_add_def [of sb]
        not_less case_prod_unfold comp_def)
next
  case False
  have "\<not> usat_add nodes 1 \<le> MAX_RESOURCE_JSON_NODES" if "\<not> nodes < MAX_RESOURCE_JSON_NODES"
    using that big_limits(1) by (simp add: usat_add_le_iff)
  with False show ?thesis by (auto simp: Let_def)
qed

lemma validate_loop_iff:
  assumes "nodes \<le> MAX_RESOURCE_JSON_NODES" and "sb \<le> MAX_RESOURCE_JSON_TOTAL_STRING_BYTES"
  shows "validate_loop surface st nodes sb = Inr () \<longleftrightarrow>
    stack_ok st \<and> nodes + stack_nodes st \<le> MAX_RESOURCE_JSON_NODES \<and>
    sb + stack_bytes st \<le> MAX_RESOURCE_JSON_TOTAL_STRING_BYTES"
  using assms
proof (induction "stack_nodes st" arbitrary: st nodes sb rule: less_induct)
  case less
  show ?case
  proof (cases st)
    case Nil
    with less.prems show ?thesis by (simp add: stack_defs)
  next
    case (Cons vd st')
    obtain v d where vd: "vd = (v, d)" by fastforce
    let ?st = "rev (map (\<lambda>c. (c, d + 1)) (children v)) @ st'"
    have nodes: "stack_nodes st = Suc (stack_nodes ?st)" and bytes: "stack_bytes st = own_bytes v + stack_bytes ?st"
      using json_nodes_children [of v] json_bytes_children [of v]
      by (simp_all add: Cons vd stack_defs comp_def rev_map)
    have ok: "stack_ok st \<longleftrightarrow> d \<le> MAX_RESOURCE_JSON_DEPTH \<and> own_short v \<and> stack_ok ?st"
    proof -
      have "stack_ok st \<longleftrightarrow> d + json_depth v \<le> MAX_RESOURCE_JSON_DEPTH \<and> json_strings_short v \<and> stack_ok st'"
        by (simp add: Cons vd stack_ok_def)
      moreover have "stack_ok ?st \<longleftrightarrow> (\<forall>c\<in>set (children v). Suc d + json_depth c \<le> MAX_RESOURCE_JSON_DEPTH)
          \<and> (\<forall>c\<in>set (children v). json_strings_short c) \<and> stack_ok st'"
        by (simp add: stack_ok_def ball_Un) blast
      ultimately show ?thesis
        unfolding json_depth_children [of d v] json_short_children [of v] by blast
    qed
    have IH: "validate_loop surface ?st (Suc nodes) (sb + own_bytes v) = Inr () \<longleftrightarrow>
      stack_ok ?st \<and> Suc nodes + stack_nodes ?st \<le> MAX_RESOURCE_JSON_NODES \<and>
      sb + own_bytes v + stack_bytes ?st \<le> MAX_RESOURCE_JSON_TOTAL_STRING_BYTES"
      if "nodes < MAX_RESOURCE_JSON_NODES" "sb + own_bytes v \<le> MAX_RESOURCE_JSON_TOTAL_STRING_BYTES"
      using that nodes by (intro less.hyps) simp_all
    show ?thesis
      unfolding Cons vd validate_step [OF less.prems(2)]
      using IH ok nodes bytes unfolding Cons vd by auto
  qed
qed

section \<open>Normalised targets\<close>

lemma collect_segments_Some:
  "collect_segments segs = Some ss \<longleftrightarrow> ''..'' \<notin> set segs \<and> ss = filter (\<lambda>s. s \<noteq> [] \<and> s \<noteq> ''.'') segs"
  by (induction segs arbitrary: ss) auto

text \<open>The shape of every target the function returns.\<close>

definition normal_form :: "bool \<Rightarrow> string list \<Rightarrow> string" where
  "normal_form rooted ss = (let body = join_with ''/'' ss in
     if rooted then (if body = [] then ''/'' else CHR ''/'' # body) else (if body = [] then ''.'' else body))"

definition segments_ok :: "string list \<Rightarrow> bool" where
  "segments_ok ss \<longleftrightarrow> (\<forall>s\<in>set ss. s \<notin> {[], ''.'', ''..''} \<and> set s \<inter> {CHR ''/'', backslash, CHR 0x00} = {})"

lemma normalize_shape:
  assumes "normalize_filesystem_target t = Inr r"
  obtains rooted ss where "r = normal_form rooted ss" and "segments_ok ss"
proof -
  let ?p = "map (\<lambda>c. if c = backslash then CHR ''/'' else c) t"
  from assms obtain ss where nul: "CHR 0x00 \<notin> set t" and ss: "collect_segments (split_on (CHR ''/'') ?p) = Some ss"
    and r: "r = normal_form (take 1 ?p = ''/'') ss"
    by (auto simp: normalize_filesystem_target_def normal_form_def Let_def split: if_splits option.splits)
  have "set s \<inter> {CHR ''/'', backslash, CHR 0x00} = {}" if "s \<in> set (split_on (CHR ''/'') ?p)" for s
    using split_on_chars [OF that] split_on_pieces [OF that] nul
    by (auto simp: backslash_def split: if_splits)
  with ss have "segments_ok ss" by (auto simp: collect_segments_Some segments_ok_def)
  with r that show ?thesis by blast
qed

lemma join_with_eq_Nil: "segments_ok ss \<Longrightarrow> join_with ''/'' ss = [] \<longleftrightarrow> ss = []"
  by (cases "(''/'', ss)" rule: join_with.cases) (auto simp: segments_ok_def)

lemma set_join_with: "set (join_with sep ss) \<subseteq> set sep \<union> \<Union> (set ` set ss)"
  by (induction sep ss rule: join_with.induct) auto

lemma split_normal_form:
  assumes "segments_ok ss"
  shows "split_on (CHR ''/'') (normal_form rooted ss) =
    (if ss = [] then (if rooted then [[], []] else [''.'']) else (if rooted then [] # ss else ss))"
proof (cases "ss = []")
  case True
  then show ?thesis by (simp add: normal_form_def)
next
  case False
  have "split_on (CHR ''/'') (join_with ''/'' ss) = ss"
    using split_join [of ss "CHR ''/''"] False assms by (auto simp: segments_ok_def)
  with False join_with_eq_Nil [OF assms] show ?thesis by (simp add: normal_form_def)
qed

lemma normal_form_chars:
  assumes "segments_ok ss"
  shows "backslash \<notin> set (normal_form rooted ss)" and "CHR 0x00 \<notin> set (normal_form rooted ss)"
proof -
  have "c \<notin> set (join_with ''/'' ss)" if "c = backslash \<or> c = CHR 0x00" for c
    using that set_join_with [of "''/''" ss] assms unfolding segments_ok_def backslash_def by fastforce
  then show "backslash \<notin> set (normal_form rooted ss)" and "CHR 0x00 \<notin> set (normal_form rooted ss)"
    by (auto simp: normal_form_def Let_def backslash_def)
qed

lemma collect_segments_ok: "segments_ok ss \<Longrightarrow> collect_segments ss = Some ss"
  by (auto simp: collect_segments_Some segments_ok_def filter_id_conv intro: sym)

lemma normal_form_rooted:
  assumes ok: "segments_ok ss" shows "take 1 (normal_form rooted ss) = ''/'' \<longleftrightarrow> rooted"
proof
  assume "take 1 (normal_form rooted ss) = ''/''"
  then obtain r where "normal_form rooted ss = CHR ''/'' # r"
    by (cases "normal_form rooted ss") auto
  then have "[] # split_on (CHR ''/'') r = split_on (CHR ''/'') (normal_form rooted ss)" by simp
  then have "rooted \<or> [] \<in> set ss"
    unfolding split_normal_form [OF ok] by (auto split: if_splits)
  with ok show rooted by (auto simp: segments_ok_def)
qed (simp add: normal_form_def Let_def)

lemma normal_form_not_unc:
  assumes ok: "segments_ok ss" shows "take 2 (normal_form rooted ss) \<noteq> ''//''"
proof
  assume "take 2 (normal_form rooted ss) = ''//''"
  then obtain r where r: "normal_form rooted ss = CHR ''/'' # CHR ''/'' # r"
    by (metis append_Cons append_Nil append_take_drop_id)
  then have "[] # [] # split_on (CHR ''/'') r = split_on (CHR ''/'') (normal_form rooted ss)" by simp
  then have "[] # [] # split_on (CHR ''/'') r = (if ss = [] then (if rooted then [[], []] else [''.''])
      else (if rooted then [] # ss else ss))"
    by (simp only: split_normal_form [OF ok])
  then have "[] \<in> set ss" by (auto split: if_splits)
  with ok show False by (auto simp: segments_ok_def)
qed

lemma normalize_normal_form:
  assumes ok: "segments_ok ss" and "\<not> drive_relative (normal_form rooted ss)"
    and "\<not> trim_is_empty (normal_form rooted ss)"
  shows "normalize_filesystem_target (normal_form rooted ss) = Inr (normal_form rooted ss)"
proof -
  have "map (\<lambda>c. if c = backslash then CHR ''/'' else c) (normal_form rooted ss) = normal_form rooted ss"
    using normal_form_chars(1) [OF ok] by (intro map_idI) auto
  moreover have "collect_segments (split_on (CHR ''/'') (normal_form rooted ss)) = Some ss"
    using collect_segments_ok [OF ok] by (simp add: split_normal_form [OF ok])
  ultimately show ?thesis
    using assms normal_form_chars(2) [OF ok] normal_form_not_unc [OF ok] normal_form_rooted [OF ok]
    by (simp add: normalize_filesystem_target_def Let_def) (simp add: normal_form_def Let_def)
qed

section \<open>Digests\<close>

lemma hex_digit_inj: "m < 16 \<Longrightarrow> n < 16 \<Longrightarrow> hex_digit m = hex_digit n \<longleftrightarrow> m = n"
proof -
  have "distinct ''0123456789abcdef''" and "length ''0123456789abcdef'' = 16" by code_simp+
  then show "m < 16 \<Longrightarrow> n < 16 \<Longrightarrow> hex_digit m = hex_digit n \<longleftrightarrow> m = n"
    unfolding hex_digit_def by (metis nth_eq_iff_index_eq)
qed

lemma hex_byte_inj: "hex_byte a = hex_byte b \<longleftrightarrow> a = b"
proof -
  have "unat x < 256" for x :: u8 by (rule order_less_le_trans [OF unsigned_less]) simp
  then have "hex_byte a = hex_byte b \<longleftrightarrow> unat a div 16 = unat b div 16 \<and> unat a mod 16 = unat b mod 16"
    by (simp add: hex_byte_def hex_digit_inj less_mult_imp_div_less)
  then show ?thesis by (metis div_mult_mod_eq unsigned_word_eqI)
qed

lemma hex_bytes_inj: "concat (map hex_byte xs) = concat (map hex_byte ys) \<longleftrightarrow> xs = ys"
proof (induction xs arbitrary: ys)
  case Nil
  show ?case by (cases ys) (auto simp: hex_byte_def)
next
  case (Cons x xs)
  show ?case
  proof (cases ys)
    case (Cons y ys')
    have "hex_byte x @ a = hex_byte y @ b \<longleftrightarrow> x = y \<and> a = b" for a b
      using hex_byte_inj [of x y] by (auto simp: hex_byte_def)
    with Cons Cons.IH show ?thesis by simp
  qed (simp add: hex_byte_def)
qed

lemma opaque_identity_inj: "opaque_identity h x = opaque_identity h y \<longleftrightarrow> h x = h y"
  by (simp add: opaque_identity_def hex_bytes_inj)

lemma resource_debug_inj [simp]: "resource_debug a = resource_debug b \<longleftrightarrow> a = b"
  by (cases a; cases b) simp_all

lemma request_identity_Inr:
  "request_identity to_vec sha256 show_uuid a rt op ps = Inr i \<longleftrightarrow>
     validate_resource_request op ps = Inr () \<and>
     (\<exists>bytes. to_vec (request_json show_uuid a rt op ps) = Inr bytes \<and> i = opaque_identity sha256 bytes)"
  by (auto simp: request_identity_def split: sum.splits)

section \<open>Properties\<close>

text \<open>C20: \<open>validate_resource_json\<close> accepts exactly the values whose nesting depth, node
  count, longest string or key and total string bytes are within the limits; the explicit
  stack, the early exits and the saturating counters make no difference.\<close>

theorem resource_json_limits:
  "validate_resource_json v surface = Inr () \<longleftrightarrow>
     json_depth v \<le> MAX_RESOURCE_JSON_DEPTH \<and> json_nodes v \<le> MAX_RESOURCE_JSON_NODES \<and>
     json_strings_short v \<and> json_bytes v \<le> MAX_RESOURCE_JSON_TOTAL_STRING_BYTES"
  unfolding validate_resource_json_def using validate_loop_iff [of 0 0 surface "[(v, 0)]"]
  by (auto simp: stack_defs stack_ok_def simp del: validate_loop.simps)

text \<open>C21: A normalised filesystem target has no parent component, no backslash and no NUL,
  and never starts with two slashes; normalising it again returns it unchanged unless the
  result is drive-relative or blank.\<close>

theorem normalized_target_safe:
  assumes "normalize_filesystem_target t = Inr r"
  shows "''..'' \<notin> set (split_on (CHR ''/'') r) \<and> backslash \<notin> set r \<and> CHR 0x00 \<notin> set r \<and>
    take 2 r \<noteq> ''//'' \<and>
    (normalize_filesystem_target r = Inr r \<or> drive_relative r \<or> trim_is_empty r)"
proof -
  from assms obtain rooted ss where r: "r = normal_form rooted ss" and ok: "segments_ok ss"
    by (rule normalize_shape)
  have "''..'' \<notin> set ss" using ok by (auto simp: segments_ok_def)
  then have "''..'' \<notin> set (split_on (CHR ''/'') r)"
    unfolding r split_normal_form [OF ok] by simp
  then show ?thesis
    using normal_form_chars [OF ok] normal_form_not_unc [OF ok] normalize_normal_form [OF ok]
    unfolding r by blast
qed

theorem normalized_target_safe_witness:
  "normalize_filesystem_target ''a//./b'' = Inr ''a/b'' \<and> normalize_filesystem_target ''a/b'' = Inr ''a/b''"
  using normalized_target_safe [of "''a//./b''" "''a/b''"] by code_simp


text \<open>C19: An admission proof issued for one agent request is accepted for another request only
  if both have the same agent, resource type, operation and parameters, provided the two
  serialised requests have no digest collision.\<close>

theorem proof_binds_request:
  assumes issued: "request_identity to_vec sha256 show_uuid a rt op ps = Inr (proof_request_identity p)"
    and agent: "proof_agent p = a"
    and verified: "verify_proof to_vec sha256 show_uuid p request = Inr released"
    and no_collision: "map_sum id sha256 (to_vec (request_json show_uuid a rt op ps)) =
      map_sum id sha256 (to_vec (request_json show_uuid (req_agent request) (req_type request)
        (req_operation request) (req_parameters request))) \<Longrightarrow>
      request_json show_uuid a rt op ps = request_json show_uuid (req_agent request) (req_type request)
        (req_operation request) (req_parameters request)"
  shows "req_agent request = a \<and> req_type request = rt \<and> req_operation request = op \<and>
    req_parameters request = ps \<and> released = (approval_satisfied p, peripheral_activity p)"
proof -
  from verified have ident: "request_identity to_vec sha256 show_uuid (req_agent request) (req_type request)
      (req_operation request) (req_parameters request) = Inr (proof_request_identity p)"
    and rest: "proof_agent p = req_agent request" "released = (approval_satisfied p, peripheral_activity p)"
    by (auto simp: verify_proof_def split: sum.splits if_splits)
  from issued ident have "request_json show_uuid a rt op ps = request_json show_uuid (req_agent request)
      (req_type request) (req_operation request) (req_parameters request)"
    by (intro no_collision) (auto simp: request_identity_Inr opaque_identity_inj)
  with rest agent show ?thesis by (auto simp: request_json_def)
qed

definition demo_to_vec :: serializer where
  "demo_to_vec v = (case json_get v ''operation'' of Some (JString op) \<Rightarrow> Inr op | _ \<Rightarrow> Inl [])"

definition demo_digest :: digest where
  "demo_digest s = map (\<lambda>c. word_of_nat (of_char c)) s"

definition demo_request :: ResourceRequest where
  "demo_request = \<lparr>req_agent = 7, req_type = Filesystem, req_operation = ''read'',
     req_parameters = JObject [(''path'', JString ''a'')], sandbox_context = None, gate_admission = None\<rparr>"

definition demo_proof :: GateAdmissionProof where
  "demo_proof = \<lparr>proof_agent = 7, proof_request_identity = ''sha256:72656164'',
     approval_satisfied = True, peripheral_activity = None\<rparr>"

lemma demo_request_valid:
  "validate_resource_request ''read'' (JObject [(''path'', JString ''a'')]) = Inr ()"
  by (simp add: validate_resource_request_def validate_resource_json_def MAX_RESOURCE_OPERATION_BYTES_def
      limit_defs Let_def usat_add_def usize_max_def)

lemma demo_request_identity:
  "request_identity demo_to_vec demo_digest (\<lambda>_. []) 7 Filesystem ''read''
     (JObject [(''path'', JString ''a'')]) = Inr ''sha256:72656164''"
  by (simp add: request_identity_def demo_request_valid request_json_def demo_to_vec_def json_get_def
      opaque_identity_def demo_digest_def hex_byte_def hex_digit_def)

theorem proof_binds_request_witness:
  "verify_proof demo_to_vec demo_digest (\<lambda>_. []) demo_proof demo_request = Inr (True, None) \<and>
   req_type demo_request = Filesystem"
proof -
  have ok: "verify_proof demo_to_vec demo_digest (\<lambda>_. []) demo_proof demo_request = Inr (True, None)"
    by (simp add: verify_proof_def demo_request_def demo_request_identity demo_proof_def)
  then show ?thesis
    using proof_binds_request [of demo_to_vec demo_digest "\<lambda>_. []" 7 Filesystem "''read''"
        "JObject [(''path'', JString ''a'')]" demo_proof demo_request "(True, None)"] demo_request_identity
    by (simp add: demo_request_def demo_proof_def)
qed

end
