(* ===== verification/Tools.thy ===== *)
theory Tools
  imports Resources Agent_Struct
begin

text \<open>
  The tool registry (\<open>crates/kernel/src/tools.rs\<close>): security declarations, the validation
  every binding passes before it is published, the registry operations, and the preparation
  of an immutable agent request from a tool call. \<open>Uuid::new_v4\<close>, the serialiser, the digest
  and the printers of JSON values and identifiers are arguments. The publication lock makes
  every operation one atomic step on the registry.
\<close>

section \<open>Security declarations\<close>

datatype SecurityAction =
    Read | Write | Delete | Network | Execute | IpcAction | BrowserAutomation
  | CredentialAccess | PackageInstall

fun action_str :: "SecurityAction \<Rightarrow> string" where
  "action_str Read = ''read''"
| "action_str Write = ''write''"
| "action_str Delete = ''delete''"
| "action_str SecurityAction.Network = ''net''"
| "action_str Execute = ''exec''"
| "action_str IpcAction = ''ipc''"
| "action_str BrowserAutomation = ''browser''"
| "action_str CredentialAccess = ''credential''"
| "action_str PackageInstall = ''package-install''"

fun mandatory_capabilities :: "SecurityAction \<Rightarrow> u64 list" where
  "mandatory_capabilities Read = []"
| "mandatory_capabilities IpcAction = []"
| "mandatory_capabilities Write = [CAP_FILE_WRITE]"
| "mandatory_capabilities Delete = [CAP_FILE_DELETE]"
| "mandatory_capabilities SecurityAction.Network = [CAP_NET_ACCESS]"
| "mandatory_capabilities BrowserAutomation = [CAP_NET_ACCESS]"
| "mandatory_capabilities Execute = [CAP_EXEC]"
| "mandatory_capabilities CredentialAccess = [CAP_ADMIN]"
| "mandatory_capabilities PackageInstall = [CAP_EXEC, CAP_ADMIN]"

definition supports_resource :: "SecurityAction \<Rightarrow> ResourceType \<Rightarrow> bool" where
  "supports_resource a rt = (case rt of
     Filesystem \<Rightarrow> a \<in> {Read, Write, Delete}
   | ResourceType.Network \<Rightarrow> a = SecurityAction.Network
   | Browser \<Rightarrow> a = BrowserAutomation
   | Application \<Rightarrow> a \<in> {Execute, CredentialAccess, PackageInstall}
   | Ipc \<Rightarrow> a = IpcAction
   | Memory \<Rightarrow> a \<in> {Read, Write}
   | Peripheral \<Rightarrow> a \<in> {Read, Write, CredentialAccess})"

definition for_provider_operation :: "ResourceType \<Rightarrow> string \<Rightarrow> SecurityAction option" where
  "for_provider_operation rt op = (case rt of
     Filesystem \<Rightarrow>
       if op \<in> {''read'', ''read_bytes'', ''list'', ''stat''} then Some Read
       else if op \<in> {''write'', ''write_bytes'', ''create'', ''create_dir'', ''edit''} then Some Write
       else if op = ''delete'' then Some Delete else None
   | Memory \<Rightarrow>
       if op \<in> {''query'', ''stat'', ''kv_get'', ''kv_list'', ''kv_dir_stat'', ''kv_stat''} then Some Read
       else if op \<in> {''store'', ''kv_put''} then Some Write else None
   | ResourceType.Network \<Rightarrow>
       if op \<in> {''get'', ''post'', ''put'', ''delete'', ''browse''} then Some SecurityAction.Network else None
   | Application \<Rightarrow>
       if op \<in> {''launch'', ''close'', ''send_input'', ''read_output''} then Some Execute
       else if op \<in> {''install'', ''uninstall''} then Some PackageInstall
       else if op \<in> {''credential'', ''credential_access'', ''read_credential''}
       then Some CredentialAccess else None
   | Browser \<Rightarrow>
       if op \<in> {''navigate'', ''click'', ''type'', ''read''} then Some BrowserAutomation else None
   | Ipc \<Rightarrow>
       if op \<in> {''send'', ''receive'', ''stat'', ''delegate'', ''delegation_status'',
                 ''complete_delegation'', ''discover''} then Some IpcAction else None
   | Peripheral \<Rightarrow>
       if op \<in> {''capture_image'', ''record_audio''} then Some Read
       else if op \<in> {''play_audio'', ''print''} then Some Write
       else if op \<in> {''credential'', ''credential_access'', ''read_credential''}
       then Some CredentialAccess else None)"

datatype ResourceExtractor = Argument string | Constant string
datatype NamespaceVisibility = Global | CallerNamespace
datatype ApprovalPolicy = NoApproval | User | Administrator
datatype SandboxRequirement = NotRequired | Required

fun satisfies :: "ApprovalPolicy \<Rightarrow> ApprovalPolicy \<Rightarrow> bool" where
  "satisfies Administrator Administrator = True"
| "satisfies Administrator User = True"
| "satisfies User User = True"
| "satisfies _ NoApproval = True"
| "satisfies _ _ = False"

record ToolSecurity =
  sec_action :: SecurityAction
  required_capabilities :: "u64 list"
  resource_extractor :: ResourceExtractor
  namespace_visibility :: NamespaceVisibility
  approval_policy :: ApprovalPolicy
  sandbox_requirement :: SandboxRequirement

definition security_new :: "SecurityAction \<Rightarrow> ResourceExtractor \<Rightarrow> ToolSecurity" where
  "security_new a x = \<lparr>sec_action = a, required_capabilities = mandatory_capabilities a,
     resource_extractor = x, namespace_visibility = Global, approval_policy = NoApproval,
     sandbox_requirement = NotRequired\<rparr>"

definition security_argument :: "SecurityAction \<Rightarrow> string \<Rightarrow> ToolSecurity" where
  "security_argument a arg = security_new a (Argument arg)"

definition security_constant :: "SecurityAction \<Rightarrow> string \<Rightarrow> ToolSecurity" where
  "security_constant a res = security_new a (Constant res)"

definition with_approval :: "ApprovalPolicy \<Rightarrow> ToolSecurity \<Rightarrow> ToolSecurity" where
  "with_approval approval s = s\<lparr>approval_policy := approval\<rparr>"

definition with_capability :: "u64 \<Rightarrow> ToolSecurity \<Rightarrow> ToolSecurity" where
  "with_capability cap s =
     (if cap \<notin> set (required_capabilities s)
      then s\<lparr>required_capabilities := required_capabilities s @ [cap]\<rparr> else s)"

definition sandboxed :: "ToolSecurity \<Rightarrow> ToolSecurity" where
  "sandboxed s = s\<lparr>sandbox_requirement := Required\<rparr>"

definition caller_namespace :: "ToolSecurity \<Rightarrow> ToolSecurity" where
  "caller_namespace s = s\<lparr>namespace_visibility := CallerNamespace\<rparr>"

definition extract_resource :: "ToolSecurity \<Rightarrow> json \<Rightarrow> string + string" where
  "extract_resource s arguments = (case resource_extractor s of
     Constant val \<Rightarrow>
       if \<not> trim_is_empty val then Inr val else Inl ''constant resource cannot be empty''
   | Argument name \<Rightarrow>
       ok_or (nonblank_str arguments name)
         (''resource argument '' @ quoted name @ '' must be a non-empty string''))"

section \<open>Bindings and their validation\<close>

datatype ToolRegistrationError =
    MissingIdentity
  | DuplicateName string
  | InvalidSchema
  | MissingOperation
  | UnsupportedOperation ResourceType string
  | OperationActionMismatch ResourceType string string string
  | ProviderTargetMismatch ResourceType string string
  | MissingResourceArgument string
  | InvalidResourceArgument string
  | EmptyConstantResource
  | InvalidCapability u64
  | ResourceActionMismatch string ResourceType
  | UnboundNamespace
  | MissingCapability string u64
  | MissingApproval string
  | MissingAdministratorApproval string
  | MissingSandbox string
  | InvalidCommandTemplate
  | CommandTemplateBindingMismatch
  | DuplicateCommandTemplate string

record ToolBinding =
  tb_name :: string
  tb_description :: string
  parameters_schema :: json
  tb_resource_type :: ResourceType
  tb_operation :: string
  tb_security :: ToolSecurity

definition known_capabilities :: "u64 list" where
  "known_capabilities = [CAP_TOOL_MOUNT, CAP_AGENT_CREATE, CAP_AGENT_KILL, CAP_NET_ACCESS,
     CAP_FILE_WRITE, CAP_FILE_DELETE, CAP_EXEC, CAP_ADMIN, CAP_SYS_RESOURCE]"

fun validate_capabilities :: "u64 list \<Rightarrow> u64 list \<Rightarrow> ToolRegistrationError failure + unit" where
  "validate_capabilities seen [] = Inr ()"
| "validate_capabilities seen (cap # caps) =
     (if cap \<notin> set known_capabilities \<or> cap \<in> set seen then Inl (Err (InvalidCapability cap))
      else validate_capabilities (cap # seen) caps)"

fun require_capabilities :: "ToolSecurity \<Rightarrow> u64 list \<Rightarrow> ToolRegistrationError failure + unit" where
  "require_capabilities s [] = Inr ()"
| "require_capabilities s (required # caps) =
     (if required \<notin> set (required_capabilities s)
      then Inl (Err (MissingCapability (action_str (sec_action s)) required))
      else require_capabilities s caps)"

definition extractor_matches_target ::
    "string option \<Rightarrow> ProviderTargetSpec \<Rightarrow> ResourceExtractor \<Rightarrow> bool" where
  "extractor_matches_target fixed expected extractor = (case (fixed, expected, extractor) of
     (Some f, ArgumentTarget k, Constant actual) \<Rightarrow> k = ''command'' \<and> actual = f
   | (None, ArgumentTarget k, Argument actual) \<Rightarrow> actual = k
   | (None, ConstantTarget t, Constant actual) \<Rightarrow> actual = t
   | _ \<Rightarrow> False)"

definition expected_extractor :: "string option \<Rightarrow> ProviderTargetSpec \<Rightarrow> string" where
  "expected_extractor fixed expected = (case fixed of
     Some target \<Rightarrow> ''constant '' @ quoted target
   | None \<Rightarrow> (case expected of
        ArgumentTarget arg \<Rightarrow> ''required string argument '' @ quoted arg
      | ConstantTarget target \<Rightarrow> ''constant '' @ quoted target))"

definition argument_required :: "(string \<times> json) list \<Rightarrow> string \<Rightarrow> bool" where
  "argument_required schema arg =
     (case Option.bind (map_of schema ''required'') as_array of
        None \<Rightarrow> False | Some vs \<Rightarrow> \<exists>v\<in>set vs. as_str v = Some arg)"

definition validate_schema :: "json \<Rightarrow> ResourceExtractor \<Rightarrow> ToolRegistrationError failure + unit" where
  "validate_schema schema_val extractor =
     (case as_object schema_val of
        None \<Rightarrow> Inl (Err InvalidSchema)
      | Some schema \<Rightarrow>
          if Option.bind (map_of schema ''type'') as_str \<noteq> Some ''object'' then Inl (Err InvalidSchema)
          else (case Option.bind (map_of schema ''properties'') as_object of
              None \<Rightarrow> Inl (Err InvalidSchema)
            | Some properties \<Rightarrow> (case extractor of
                Argument arg \<Rightarrow> (case map_of properties arg of
                    None \<Rightarrow> Inl (Err (MissingResourceArgument arg))
                  | Some property \<Rightarrow>
                      if trim_is_empty arg \<or> Option.bind (json_get property ''type'') as_str \<noteq> Some ''string''
                         \<or> \<not> argument_required schema arg
                      then Inl (Err (InvalidResourceArgument arg)) else Inr ())
              | Constant res \<Rightarrow>
                  if trim_is_empty res then Inl (Err EmptyConstantResource) else Inr ())))"

definition validate_binding_with_scope ::
    "ToolBinding \<Rightarrow> bool \<Rightarrow> string option \<Rightarrow> ToolRegistrationError failure + unit" where
  "validate_binding_with_scope b has_concrete_namespace fixed =
     (let s = tb_security b; rt = tb_resource_type b; op = tb_operation b; act = action_str (sec_action s) in
      if trim_is_empty (tb_name b) \<or> trim_is_empty (tb_description b) then Inl (Err MissingIdentity)
      else if trim_is_empty op then Inl (Err MissingOperation)
      else case provider_target_spec rt op of
        None \<Rightarrow> Inl (Err (UnsupportedOperation rt op))
      | Some expected_target \<Rightarrow>
          if \<not> extractor_matches_target fixed expected_target (resource_extractor s)
          then Inl (Err (ProviderTargetMismatch rt op (expected_extractor fixed expected_target)))
          else bind_res (validate_schema (parameters_schema b) (resource_extractor s)) (\<lambda>_.
            if \<not> supports_resource (sec_action s) rt then Inl (Err (ResourceActionMismatch act rt))
            else bind_res (expect (for_provider_operation rt op)) (\<lambda>expected_action.
              if sec_action s \<noteq> expected_action
              then Inl (Err (OperationActionMismatch rt op (action_str expected_action) act))
              else if namespace_visibility s = CallerNamespace \<and> rt \<noteq> Ipc \<and> \<not> has_concrete_namespace
              then Inl (Err UnboundNamespace)
              else bind_res (validate_capabilities [] (required_capabilities s)) (\<lambda>_.
                bind_res (require_capabilities s (mandatory_capabilities (sec_action s))) (\<lambda>_.
                if sec_action s \<in> {CredentialAccess, PackageInstall} \<and> approval_policy s \<noteq> Administrator
                then Inl (Err (MissingAdministratorApproval act))
                else if (sec_action s \<in> {Delete, BrowserAutomation} \<or> rt = Peripheral)
                   \<and> approval_policy s = NoApproval
                then Inl (Err (MissingApproval act))
                else if (sec_action s \<in> {Execute, Delete, PackageInstall, BrowserAutomation, CredentialAccess}
                   \<or> rt = Peripheral) \<and> sandbox_requirement s \<noteq> Required
                then Inl (Err (MissingSandbox act))
                else Inr ())))))"

definition validate_binding :: "ToolBinding \<Rightarrow> ToolRegistrationError failure + unit" where
  "validate_binding b = validate_binding_with_scope b False None"

section \<open>The registry\<close>

record ToolRegistry =
  tools :: "(string \<times> ToolBinding) list"
  binding_ids :: "(string \<times> uuid) list"
  command_templates :: "(string \<times> string \<times> string list) list"

definition registry_empty :: ToolRegistry where
  "registry_empty = \<lparr>tools = [], binding_ids = [], command_templates = []\<rparr>"

definition register_locked ::
    "uuid \<Rightarrow> ToolRegistry \<Rightarrow> ToolBinding \<Rightarrow> bool \<Rightarrow> string option
     \<Rightarrow> ToolRegistrationError failure + ToolRegistry" where
  "register_locked fresh r b has_concrete_namespace fixed =
     bind_res (validate_binding_with_scope b has_concrete_namespace fixed) (\<lambda>_.
       case map_of (tools r) (tb_name b) of
         None \<Rightarrow> Inr (r\<lparr>tools := AList.update (tb_name b) b (tools r),
                       binding_ids := AList.update (tb_name b) fresh (binding_ids r)\<rparr>)
       | Some _ \<Rightarrow> Inl (Err (DuplicateName (tb_name b))))"

definition register_tool :: "uuid \<Rightarrow> ToolRegistry \<Rightarrow> ToolBinding \<Rightarrow> ToolRegistrationError failure + ToolRegistry" where
  "register_tool fresh r b = register_locked fresh r b False None"

definition register_namespace_scoped ::
    "uuid \<Rightarrow> ToolRegistry \<Rightarrow> ToolBinding \<Rightarrow> ToolRegistrationError failure + ToolRegistry" where
  "register_namespace_scoped fresh r b = register_locked fresh r b True None"

definition unregister :: "ToolRegistry \<Rightarrow> string \<Rightarrow> ToolRegistry" where
  "unregister r name = r\<lparr>tools := AList.delete name (tools r),
     binding_ids := AList.delete name (binding_ids r),
     command_templates := AList.delete name (command_templates r)\<rparr>"

definition validate_command_template_binding ::
    "ToolBinding \<Rightarrow> string \<Rightarrow> ToolRegistrationError failure + unit" where
  "validate_command_template_binding b command =
     (if trim_is_empty command then Inl (Err InvalidCommandTemplate)
      else if tb_resource_type b \<noteq> Application \<or> tb_operation b \<noteq> ''launch''
         \<or> sec_action (tb_security b) \<noteq> Execute
         \<or> CAP_EXEC \<notin> set (required_capabilities (tb_security b))
         \<or> sandbox_requirement (tb_security b) \<noteq> Required
         \<or> resource_extractor (tb_security b) \<noteq> Constant command
      then Inl (Err CommandTemplateBindingMismatch) else Inr ())"

definition try_register_command_template_locked ::
    "uuid \<Rightarrow> ToolRegistry \<Rightarrow> string \<Rightarrow> string \<Rightarrow> string list \<Rightarrow> ToolRegistrationError failure + ToolRegistry" where
  "try_register_command_template_locked fresh r name command args =
     bind_res (ok_or (map_of (tools r) name) (Err CommandTemplateBindingMismatch)) (\<lambda>b.
     bind_res (validate_command_template_binding b command) (\<lambda>_.
       case map_of (command_templates r) name of
         None \<Rightarrow> Inr (r\<lparr>command_templates := AList.update name (command, args) (command_templates r),
                       binding_ids := AList.update name fresh (binding_ids r)\<rparr>)
       | Some _ \<Rightarrow> Inl (Err (DuplicateCommandTemplate name))))"

text \<open>A rejected template is logged and otherwise ignored.\<close>

definition register_command_template ::
    "uuid \<Rightarrow> ToolRegistry \<Rightarrow> string \<Rightarrow> string \<Rightarrow> string list \<Rightarrow> ToolRegistry" where
  "register_command_template fresh r name command args =
     (case try_register_command_template_locked fresh r name command args of
        Inl _ \<Rightarrow> r | Inr r' \<Rightarrow> r')"

text \<open>The result is the outcome and the registry afterwards, since a failure rolls back.\<close>

definition register_command_tool ::
    "uuid \<Rightarrow> uuid \<Rightarrow> ToolRegistry \<Rightarrow> ToolBinding \<Rightarrow> string \<Rightarrow> string list
     \<Rightarrow> (ToolRegistrationError failure + unit) \<times> ToolRegistry" where
  "register_command_tool fresh1 fresh2 r b command args =
     (case bind_res (validate_binding_with_scope b False (Some command)) (\<lambda>_.
           bind_res (validate_command_template_binding b command) (\<lambda>_.
             register_locked fresh1 r b False (Some command))) of
        Inl e \<Rightarrow> (Inl e, r)
      | Inr r1 \<Rightarrow> (case try_register_command_template_locked fresh2 r1 (tb_name b) command args of
            Inl e \<Rightarrow> (Inl e, r1\<lparr>tools := AList.delete (tb_name b) (tools r1),
                              binding_ids := AList.delete (tb_name b) (binding_ids r1)\<rparr>)
          | Inr r2 \<Rightarrow> (Inr (), r2)))"

definition security :: "ToolRegistry \<Rightarrow> string \<Rightarrow> ToolSecurity option" where
  "security r name = map_option tb_security (map_of (tools r) name)"

definition security_catalog :: "ToolRegistry \<Rightarrow> (string \<times> ToolSecurity) list" where
  "security_catalog r = map (\<lambda>(_, b). (tb_name b, tb_security b)) (tools r)"

definition binding_catalog :: "ToolRegistry \<Rightarrow> (string \<times> ToolBinding) list" where
  "binding_catalog r = map (\<lambda>(_, b). (tb_name b, b)) (tools r)"

definition has_tool :: "ToolRegistry \<Rightarrow> string \<Rightarrow> bool" where
  "has_tool r name = (map_of (tools r) name \<noteq> None)"

section \<open>From a tool call to an agent request\<close>

text \<open>\<open>str::replace\<close> with a pattern that is not empty.\<close>

function replace_all :: "string \<Rightarrow> string \<Rightarrow> string \<Rightarrow> string" where
  "replace_all pat v s =
     (if s = [] then []
      else if pat \<noteq> [] \<and> take (length pat) s = pat then v @ replace_all pat v (drop (length pat) s)
      else hd s # replace_all pat v (tl s))"
  by pat_completeness auto
termination by (relation "measure (\<lambda>(_, _, s). length s)") auto

declare replace_all.simps [simp del]

fun substitute :: "(json \<Rightarrow> string) \<Rightarrow> (string \<times> json) list \<Rightarrow> string \<Rightarrow> string" where
  "substitute show_json [] result = result"
| "substitute show_json ((key, val) # kvs) result =
     substitute show_json kvs
       (replace_all (''{'' @ key @ ''}'') (case as_str val of Some s \<Rightarrow> s | None \<Rightarrow> show_json val) result)"

definition expand_args :: "(json \<Rightarrow> string) \<Rightarrow> json \<Rightarrow> string list \<Rightarrow> string list" where
  "expand_args show_json arguments args_template =
     map (\<lambda>tmpl. case as_object arguments of
            Some obj \<Rightarrow> substitute show_json obj tmpl | None \<Rightarrow> tmpl) args_template"

definition str_or_empty :: "json option \<Rightarrow> json" where
  "str_or_empty v = JString (case Option.bind v as_str of Some s \<Rightarrow> s | None \<Rightarrow> [])"

definition or_else :: "'a option \<Rightarrow> 'a option \<Rightarrow> 'a option" where
  "or_else a b = (case a of None \<Rightarrow> b | Some _ \<Rightarrow> a)"

definition provider_parameters ::
    "(uuid \<Rightarrow> string) \<Rightarrow> uuid \<Rightarrow> ResourceType \<Rightarrow> string \<Rightarrow> json \<Rightarrow> json option" where
  "provider_parameters show_uuid agent rt op arguments =
     (if rt = Memory then
        map_option (\<lambda>obj. JObject (AList.update ''agent'' (JString (show_uuid agent)) obj)) (as_object arguments)
      else if rt = Ipc \<and> op = ''send'' then Some (JObject
        [(''from'', JString (show_uuid agent)),
         (''payload'', case or_else (json_get arguments ''payload'') (json_get arguments ''message'') of
                         Some v \<Rightarrow> v | None \<Rightarrow> JNull),
         (''to'', str_or_empty (json_get arguments ''to''))])
      else if rt = Ipc \<and> (op = ''receive'' \<or> op = ''stat'') then
        Some (JObject [(''agent'', JString (show_uuid agent))])
      else if rt = Ipc \<and> op = ''discover'' then
        Some (JObject [(''viewer'', JString (show_uuid agent))])
      else if rt = Ipc \<and> op = ''delegate'' then Some (JObject
        [(''description'', str_or_empty (or_else (json_get arguments ''description'') (json_get arguments ''task''))),
         (''from'', JString (show_uuid agent)),
         (''to'', str_or_empty (json_get arguments ''to''))])
      else if rt = Ipc \<and> (op = ''delegation_status'' \<or> op = ''complete_delegation'') then Some (JObject
        [(''from'', JString (show_uuid agent)),
         (''task_id'', str_or_empty (json_get arguments ''task_id''))])
      else Some arguments)"

definition resolve_locked ::
    "(uuid \<Rightarrow> string) \<Rightarrow> (json \<Rightarrow> string) \<Rightarrow> ToolRegistry \<Rightarrow> uuid \<Rightarrow> string \<Rightarrow> json \<Rightarrow> ResourceRequest option" where
  "resolve_locked show_uuid show_json r agent name arguments =
     Option.bind (map_of (tools r) name) (\<lambda>b.
       let rt = tb_resource_type b; op = tb_operation b; s = tb_security b in
       case map_of (command_templates r) name of
         Some (command, args_template) \<Rightarrow>
           if rt \<noteq> Application \<or> op \<noteq> ''launch'' \<or> sec_action s \<noteq> Execute
              \<or> CAP_EXEC \<notin> set (required_capabilities s) \<or> sandbox_requirement s \<noteq> Required then None
           else if resource_extractor s \<noteq> Constant command then None
           else Some \<lparr>req_agent = agent, req_type = Application, req_operation = ''launch'',
             req_parameters = JObject
               [(''args'', JArray (map JString (expand_args show_json arguments args_template))),
                (''command'', JString command)],
             sandbox_context = None, gate_admission = None\<rparr>
       | None \<Rightarrow>
           map_option (\<lambda>parameters. \<lparr>req_agent = agent, req_type = rt, req_operation = op,
             req_parameters = parameters, sandbox_context = None, gate_admission = None\<rparr>)
             (provider_parameters show_uuid agent rt op arguments))"

record PreparedToolCall =
  call_security :: ToolSecurity
  call_resource :: string
  estimated_tokens :: u64

record PreparedToolExecution =
  authorization :: PreparedToolCall
  exec_request :: ResourceRequest
  approval_contract_digest :: string

definition tool_error :: "string \<Rightarrow> string \<Rightarrow> string" where
  "tool_error name msg = ''tool '' @ quoted name @ msg"

definition security_context_locked ::
    "ToolRegistry \<Rightarrow> string \<Rightarrow> json \<Rightarrow> string + ToolSecurity \<times> string" where
  "security_context_locked r name arguments =
     bind_res (ok_or (map_of (tools r) name) (''unknown tool '' @ quoted name)) (\<lambda>b.
     bind_res (extract_resource (tb_security b) arguments) (\<lambda>resource.
       if tb_resource_type b = Filesystem
       then (case normalize_filesystem_target resource of
               Inl e \<Rightarrow> Inl (tool_error name ('' has an invalid filesystem target: '' @ resource_error_display e))
             | Inr resource' \<Rightarrow> Inr (tb_security b, resource'))
       else Inr (tb_security b, resource)))"

definition prepare_call_locked ::
    "(json \<Rightarrow> string) \<Rightarrow> ToolRegistry \<Rightarrow> string \<Rightarrow> json \<Rightarrow> string + PreparedToolCall" where
  "prepare_call_locked show_json r name arguments =
     bind_res (security_context_locked r name arguments) (\<lambda>(s, resource).
       Inr \<lparr>call_security = s, call_resource = resource,
            estimated_tokens = sat_add (sat_add (word_of_nat (length (show_json arguments)) div 4)
              (word_of_nat (length name) div 4)) 10\<rparr>)"

section \<open>The approval contract\<close>

function decimal :: "nat \<Rightarrow> string" where
  "decimal n = (if n < 10 then [''0123456789'' ! n] else decimal (n div 10) @ [''0123456789'' ! (n mod 10)])"
  by pat_completeness auto
termination by (relation "measure id") auto

declare decimal.simps [simp del]

fun action_kebab :: "SecurityAction \<Rightarrow> string" where
  "action_kebab Read = ''read''"
| "action_kebab Write = ''write''"
| "action_kebab Delete = ''delete''"
| "action_kebab SecurityAction.Network = ''network''"
| "action_kebab Execute = ''execute''"
| "action_kebab IpcAction = ''ipc''"
| "action_kebab BrowserAutomation = ''browser-automation''"
| "action_kebab CredentialAccess = ''credential-access''"
| "action_kebab PackageInstall = ''package-install''"

definition security_json :: "ToolSecurity \<Rightarrow> json" where
  "security_json s = JObject
     [(''action'', JString (action_kebab (sec_action s))),
      (''approval_policy'', JString (case approval_policy s of
          NoApproval \<Rightarrow> ''none'' | User \<Rightarrow> ''user'' | Administrator \<Rightarrow> ''administrator'')),
      (''namespace_visibility'', JString (case namespace_visibility s of
          Global \<Rightarrow> ''global'' | CallerNamespace \<Rightarrow> ''caller-namespace'')),
      (''required_capabilities'', JArray (map (\<lambda>c. JNumber (decimal (unat c))) (required_capabilities s))),
      (''resource_extractor'', JObject (case resource_extractor s of
          Argument v \<Rightarrow> [(''kind'', JString ''argument''), (''value'', JString v)]
        | Constant v \<Rightarrow> [(''kind'', JString ''constant''), (''value'', JString v)])),
      (''sandbox_requirement'', JString (case sandbox_requirement s of
          NotRequired \<Rightarrow> ''not-required'' | Required \<Rightarrow> ''required''))]"

definition contract_json :: "ToolSecurity \<Rightarrow> ResourceRequest \<Rightarrow> json" where
  "contract_json s request = JObject
     [(''operation'', JString (req_operation request)), (''parameters'', req_parameters request),
      (''resource_type'', JString (resource_debug (req_type request))),
      (''security'', security_json s), (''version'', JNumber ''1'')]"

text \<open>Replaces the \<open>path\<close> of a filesystem request by its normal form.\<close>

definition normalize_request :: "string \<Rightarrow> ResourceRequest \<Rightarrow> string + ResourceRequest" where
  "normalize_request name request =
     (if req_type request = Filesystem then
        (case provider_target (req_type request) (req_operation request) (req_parameters request) of
           Inl e \<Rightarrow> Inl (tool_error name ('' has an invalid provider target: '' @ resource_error_display e))
         | Inr target \<Rightarrow> (case normalize_filesystem_target target of
             Inl e \<Rightarrow> Inl (tool_error name ('' has an invalid filesystem target: '' @ resource_error_display e))
           | Inr normalized \<Rightarrow> (case as_object (req_parameters request) of
               None \<Rightarrow> Inl (tool_error name '' filesystem parameters must be an object'')
             | Some obj \<Rightarrow>
                 Inr (request\<lparr>req_parameters := JObject (AList.update ''path'' (JString normalized) obj)\<rparr>))))
      else Inr request)"

definition prepare_bound_execution ::
    "serializer \<Rightarrow> digest \<Rightarrow> (uuid \<Rightarrow> string) \<Rightarrow> (json \<Rightarrow> string) \<Rightarrow> ToolRegistry
     \<Rightarrow> uuid \<Rightarrow> string \<Rightarrow> json \<Rightarrow> uuid option \<Rightarrow> string + PreparedToolExecution" where
  "prepare_bound_execution to_vec sha256 show_uuid show_json r agent name arguments binding_id =
     (if (case binding_id of None \<Rightarrow> False | Some expected \<Rightarrow> map_of (binding_ids r) name \<noteq> Some expected)
      then Inl ''VFS tool binding revoked''
      else bind_res (prepare_call_locked show_json r name arguments) (\<lambda>auth.
        bind_res (ok_or (resolve_locked show_uuid show_json r agent name arguments)
            (tool_error name '' has no executable provider binding'')) (\<lambda>resolved.
        bind_res (normalize_request name resolved) (\<lambda>request.
        case provider_target (req_type request) (req_operation request) (req_parameters request) of
          Inl e \<Rightarrow> Inl (tool_error name ('' has an invalid provider target: '' @ resource_error_display e))
        | Inr target \<Rightarrow>
            if target \<noteq> call_resource auth
            then Inl (tool_error name '' authorization target does not match provider target'')
            else (case to_vec (contract_json (call_security auth) request) of
                Inl e \<Rightarrow> Inl (tool_error name ('' contract serialization failed: '' @ e))
              | Inr bytes \<Rightarrow> Inr \<lparr>authorization = auth, exec_request = request,
                    approval_contract_digest = opaque_identity sha256 bytes\<rparr>)))))"


section \<open>The built-in tools\<close>

definition typed_prop :: "string \<Rightarrow> (string \<times> json) list \<Rightarrow> json" where
  "typed_prop ty extra = JObject (extra @ [(''type'', JString ty)])"

definition described :: "string \<Rightarrow> json" where
  "described d = typed_prop ''string'' [(''description'', JString d)]"

definition object_schema :: "(string \<times> json) list \<Rightarrow> string list \<Rightarrow> json" where
  "object_schema properties required = JObject
     [(''properties'', JObject properties), (''required'', JArray (map JString required)),
      (''type'', JString ''object'')]"

definition filesystem_tool :: "string \<Rightarrow> string \<Rightarrow> string \<Rightarrow> json \<Rightarrow> ToolSecurity \<Rightarrow> ToolBinding" where
  "filesystem_tool name op desc schema sec = \<lparr>tb_name = name, tb_description = desc,
     parameters_schema = schema, tb_resource_type = Filesystem, tb_operation = op, tb_security = sec\<rparr>"

definition workspace_builtins :: "ToolBinding list" where
  "workspace_builtins = map (\<lambda>(name, operation, description, parameters).
     filesystem_tool name operation description parameters
       (if operation = ''write_bytes'' then sandboxed (security_argument Write ''path'')
        else security_argument Read ''path''))
     [(''stat_path'', ''stat'', ''Read bounded file or directory metadata inside your workspace'',
       object_schema [(''path'', typed_prop ''string'' [])] [''path'']),
      (''read_file_bytes'', ''read_bytes'', ''Read a bounded binary file chunk inside your workspace'',
       object_schema
         [(''max_bytes'', JObject [(''maximum'', JNumber ''1048576''), (''minimum'', JNumber ''1''),
             (''type'', JString ''integer'')]),
          (''offset'', JObject [(''minimum'', JNumber ''0''), (''type'', JString ''integer'')]),
          (''path'', typed_prop ''string'' [])] [''path'']),
      (''write_file_bytes'', ''write_bytes'',
       ''Atomically replace a workspace file with bounded base64-encoded bytes'',
       object_schema [(''data_base64'', typed_prop ''string'' []), (''path'', typed_prop ''string'' [])]
         [''path'', ''data_base64''])]"

definition read_file_tool :: ToolBinding where
  "read_file_tool = filesystem_tool ''read_file'' ''read'' ''Read the contents of a file at the given path''
     (object_schema [(''path'', described ''File path to read'')] [''path''])
     (security_argument Read ''path'')"

definition write_file_tool :: ToolBinding where
  "write_file_tool = filesystem_tool ''write_file'' ''write'' ''Write content to a file at the given path''
     (object_schema [(''content'', described ''Content to write''), (''path'', described ''File path to write'')]
       [''path'', ''content''])
     (sandboxed (security_argument Write ''path''))"

definition list_directory_tool :: ToolBinding where
  "list_directory_tool = filesystem_tool ''list_directory'' ''list''
     ''List files and directories at the given path''
     (object_schema [(''path'', described ''Directory path to list'')] [''path''])
     (security_argument Read ''path'')"

definition http_get_tool :: ToolBinding where
  "http_get_tool = \<lparr>tb_name = ''http_get'', tb_description = ''Make an HTTP GET request to a URL'',
     parameters_schema = object_schema [(''url'', described ''URL to fetch'')] [''url''],
     tb_resource_type = ResourceType.Network, tb_operation = ''get'',
     tb_security = security_argument SecurityAction.Network ''url''\<rparr>"

definition launch_tool :: "string \<Rightarrow> string \<Rightarrow> json \<Rightarrow> ToolSecurity \<Rightarrow> ToolBinding" where
  "launch_tool name desc schema sec = \<lparr>tb_name = name, tb_description = desc,
     parameters_schema = schema, tb_resource_type = Application, tb_operation = ''launch'',
     tb_security = sec\<rparr>"

definition run_command_tool :: ToolBinding where
  "run_command_tool = launch_tool ''run_command'' ''Run a shell command and return its output''
     (object_schema
       [(''args'', JObject [(''description'', JString ''Command arguments''),
           (''items'', typed_prop ''string'' []), (''type'', JString ''array'')]),
        (''command'', described ''Command to execute'')] [''command''])
     (sandboxed (with_approval User (security_argument Execute ''command'')))"

definition search_files_tool :: ToolBinding where
  "search_files_tool = launch_tool ''search_files''
     ''Search for files matching a pattern recursively in a directory''
     (object_schema
       [(''directory'', described ''Directory to search in''),
        (''pattern'', described (''Filename pattern to match (e.g., '' @ quoted ''*.rs'' @ '', '' @ quoted ''test*'' @ '')''))]
       [''directory'', ''pattern''])
     (sandboxed (security_constant Execute ''find''))"

definition git_status_tool :: ToolBinding where
  "git_status_tool = launch_tool ''git_status'' ''Get the git status of a repository''
     (object_schema [(''directory'', described ''Path to the git repository'')] [''directory''])
     (sandboxed (security_constant Execute ''git''))"

definition create_directory_tool :: ToolBinding where
  "create_directory_tool = filesystem_tool ''create_directory'' ''create_dir''
     ''Create a directory (and parent directories if needed)''
     (object_schema [(''path'', described ''Directory path to create'')] [''path''])
     (sandboxed (security_argument Write ''path''))"

datatype builtin = Plain ToolBinding | Templated ToolBinding string "string list"

definition builtins :: "builtin list" where
  "builtins = map Plain (workspace_builtins @
       [read_file_tool, write_file_tool, list_directory_tool, http_get_tool, run_command_tool]) @
     [Templated search_files_tool ''find'' [''{directory}'', ''-name'', ''{pattern}'', ''-type'', ''f''],
      Templated git_status_tool ''git'' [''-C'', ''{directory}'', ''status'', ''--short''],
      Plain create_directory_tool]"

text \<open>Every call is followed by \<open>expect\<close>: a rejected built-in panics.\<close>

fun run_builtins ::
    "(nat \<Rightarrow> uuid) \<Rightarrow> builtin list \<Rightarrow> ToolRegistry \<Rightarrow> ToolRegistrationError failure + ToolRegistry" where
  "run_builtins fresh [] r = Inr r"
| "run_builtins fresh (Plain b # bs) r =
     (case register_tool (fresh (2 * length bs)) r b of
        Inl _ \<Rightarrow> Inl Panic | Inr r' \<Rightarrow> run_builtins fresh bs r')"
| "run_builtins fresh (Templated b command args # bs) r =
     (case register_command_tool (fresh (2 * length bs)) (fresh (2 * length bs + 1)) r b command args of
        (Inl _, _) \<Rightarrow> Inl Panic | (Inr _, r') \<Rightarrow> run_builtins fresh bs r')"

definition registry_new :: "(nat \<Rightarrow> uuid) \<Rightarrow> ToolRegistrationError failure + ToolRegistry" where
  "registry_new fresh = run_builtins fresh builtins registry_empty"

section \<open>The tables agree\<close>

lemma target_has_action:
  "provider_target_spec rt op = Some spec \<Longrightarrow> \<exists>a. for_provider_operation rt op = Some a \<and> supports_resource a rt"
  by (cases rt) (auto simp: provider_target_spec_def for_provider_operation_def supports_resource_def split: if_splits)

lemma validate_capabilities_Inr:
  "validate_capabilities seen caps = Inr () \<longleftrightarrow>
     set caps \<subseteq> set known_capabilities \<and> distinct caps \<and> set caps \<inter> set seen = {}"
  by (induction seen caps rule: validate_capabilities.induct) auto

lemma require_capabilities_Inr:
  "require_capabilities s caps = Inr () \<longleftrightarrow> set caps \<subseteq> set (required_capabilities s)"
  by (induction s caps rule: require_capabilities.induct) auto

lemma no_panic_parts:
  "validate_capabilities seen caps \<noteq> Inl Panic" "require_capabilities s caps \<noteq> Inl Panic"
  "validate_schema j x \<noteq> Inl Panic"
proof -
  show "validate_capabilities seen caps \<noteq> Inl Panic"
    by (induction seen caps rule: validate_capabilities.induct) auto
  show "require_capabilities s caps \<noteq> Inl Panic"
    by (induction s caps rule: require_capabilities.induct) auto
  show "validate_schema j x \<noteq> Inl Panic"
    by (auto simp: validate_schema_def split: option.splits ResourceExtractor.splits)
qed

lemma if_Err_Panic: "(if c then Inl (Err e) else x) = Inl Panic \<longleftrightarrow> \<not> c \<and> x = Inl Panic"
  by simp

lemma validate_no_panic: "validate_binding_with_scope b ns fixed \<noteq> Inl Panic"
proof (cases "provider_target_spec (tb_resource_type b) (tb_operation b)")
  case None
  then show ?thesis by (simp add: validate_binding_with_scope_def Let_def)
next
  case (Some spec)
  then obtain a where "for_provider_operation (tb_resource_type b) (tb_operation b) = Some a"
    using target_has_action by blast
  with Some show ?thesis
    by (simp add: validate_binding_with_scope_def Let_def if_Err_Panic bind_res_Inl_iff no_panic_parts
        del: bind_res_simps split del: if_split)
qed

section \<open>What a published binding satisfies\<close>

lemma validate_facts:
  assumes "validate_binding_with_scope b ns fixed = Inr ()"
  defines "s \<equiv> tb_security b"
  obtains spec where "provider_target_spec (tb_resource_type b) (tb_operation b) = Some spec"
    and "extractor_matches_target fixed spec (resource_extractor s)"
    and "validate_schema (parameters_schema b) (resource_extractor s) = Inr ()"
    and "for_provider_operation (tb_resource_type b) (tb_operation b) = Some (sec_action s)"
    and "namespace_visibility s = CallerNamespace \<longrightarrow> tb_resource_type b = Ipc \<or> ns"
    and "set (required_capabilities s) \<subseteq> set known_capabilities" and "distinct (required_capabilities s)"
    and "set (mandatory_capabilities (sec_action s)) \<subseteq> set (required_capabilities s)"
    and "sec_action s \<in> {CredentialAccess, PackageInstall} \<longrightarrow> approval_policy s = Administrator"
    and "sec_action s \<in> {Delete, BrowserAutomation} \<or> tb_resource_type b = Peripheral \<longrightarrow>
      approval_policy s \<noteq> NoApproval"
    and "sec_action s \<in> {Execute, Delete, PackageInstall, BrowserAutomation, CredentialAccess} \<or>
      tb_resource_type b = Peripheral \<longrightarrow> sandbox_requirement s = Required"
proof -
  from assms(1) obtain spec where spec: "provider_target_spec (tb_resource_type b) (tb_operation b) = Some spec"
    by (auto simp: validate_binding_with_scope_def Let_def split: if_splits option.splits)
  obtain a where a: "for_provider_operation (tb_resource_type b) (tb_operation b) = Some a"
    using target_has_action [OF spec] by blast
  have if_Inl: "(if c then Inl e else x) = Inr y \<longleftrightarrow> \<not> c \<and> x = Inr y" for c e x and y :: unit
    by simp
  from assms(1) spec a show thesis
    by (simp add: validate_binding_with_scope_def Let_def bind_res_Inr_iff if_Inl validate_capabilities_Inr
         require_capabilities_Inr del: bind_res_simps split del: if_split)
       (rule that [of spec, unfolded s_def]; auto)
qed

definition published :: "ToolRegistry \<Rightarrow> string \<Rightarrow> ToolBinding \<Rightarrow> bool" where
  "published r name b \<longleftrightarrow> tb_name b = name \<and> map_of (binding_ids r) name \<noteq> None \<and>
     ((\<exists>ns. validate_binding_with_scope b ns None = Inr ()) \<and> map_of (command_templates r) name = None \<or>
      (\<exists>command args. validate_binding_with_scope b False (Some command) = Inr () \<and>
         validate_command_template_binding b command = Inr () \<and>
         map_of (command_templates r) name = Some (command, args)))"

definition registry_ok :: "ToolRegistry \<Rightarrow> bool" where
  "registry_ok r \<longleftrightarrow> wf_map (tools r) \<and> wf_map (binding_ids r) \<and> wf_map (command_templates r) \<and>
     (\<forall>name. (map_of (tools r) name = None \<longrightarrow>
          map_of (binding_ids r) name = None \<and> map_of (command_templates r) name = None) \<and>
        (\<forall>b. map_of (tools r) name = Some b \<longrightarrow> published r name b))"

inductive registry_reachable :: "ToolRegistry \<Rightarrow> bool" where
  start: "registry_reachable registry_empty"
| register: "registry_reachable r \<Longrightarrow> register_tool fresh r b = Inr r' \<Longrightarrow> registry_reachable r'"
| namespace: "registry_reachable r \<Longrightarrow> register_namespace_scoped fresh r b = Inr r' \<Longrightarrow> registry_reachable r'"
| unregister: "registry_reachable r \<Longrightarrow> registry_reachable (unregister r name)"
| template: "registry_reachable r \<Longrightarrow> registry_reachable (register_command_template fresh r name command args)"
| command: "registry_reachable r \<Longrightarrow>
    registry_reachable (snd (register_command_tool fresh1 fresh2 r b command args))"

lemma register_locked_Inr:
  "register_locked fresh r b ns fixed = Inr r' \<longleftrightarrow>
     validate_binding_with_scope b ns fixed = Inr () \<and> map_of (tools r) (tb_name b) = None \<and>
     r' = r\<lparr>tools := AList.update (tb_name b) b (tools r), binding_ids := AList.update (tb_name b) fresh (binding_ids r)\<rparr>"
  by (auto simp: register_locked_def bind_res_Inr_iff split: option.splits)

lemma register_locked_ok:
  assumes "registry_ok r" and "register_locked fresh r b ns None = Inr r'"
  shows "registry_ok r'"
  using assms
  by (fastforce simp: registry_ok_def register_locked_Inr published_def map_of_update wf_map_update)

lemma unregister_ok: "registry_ok r \<Longrightarrow> registry_ok (unregister r name)"
  by (auto simp: registry_ok_def unregister_def published_def map_of_delete wf_map_delete)

text \<open>Only a binding published with its template passes the template check.\<close>

lemma template_needs_fixed:
  assumes "validate_binding_with_scope b ns None = Inr ()"
  shows "validate_command_template_binding b command \<noteq> Inr ()"
proof
  assume "validate_command_template_binding b command = Inr ()"
  then have "tb_resource_type b = Application" "tb_operation b = ''launch''"
      "resource_extractor (tb_security b) = Constant command"
    by (auto simp: validate_command_template_binding_def split: if_splits)
  moreover from assms obtain spec where "provider_target_spec (tb_resource_type b) (tb_operation b) = Some spec"
    "extractor_matches_target None spec (resource_extractor (tb_security b))"
    by (rule validate_facts)
  ultimately show False by (auto simp: provider_target_spec_def extractor_matches_target_def)
qed

lemma template_rejected:
  assumes "registry_ok r"
  shows "register_command_template fresh r name command args = r"
proof (cases "map_of (tools r) name")
  case None
  then show ?thesis by (simp add: register_command_template_def try_register_command_template_locked_def)
next
  case (Some b)
  with assms have "published r name b" by (simp add: registry_ok_def)
  with Some template_needs_fixed show ?thesis
    by (cases "validate_command_template_binding b command")
       (auto simp: published_def register_command_template_def try_register_command_template_locked_def)
qed

lemma command_tool_cases:
  assumes "registry_ok r"
  obtains e where "register_command_tool f1 f2 r b command args = (Inl e, r)"
  | r1 where "register_command_tool f1 f2 r b command args = (Inr (), r1\<lparr>
        command_templates := AList.update (tb_name b) (command, args) (command_templates r1),
        binding_ids := AList.update (tb_name b) f2 (binding_ids r1)\<rparr>)"
    and "register_locked f1 r b False (Some command) = Inr r1"
    and "validate_command_template_binding b command = Inr ()"
proof (cases "bind_res (validate_binding_with_scope b False (Some command)) (\<lambda>_.
           bind_res (validate_command_template_binding b command) (\<lambda>_.
             register_locked f1 r b False (Some command)))")
  case (Inl e)
  then show ?thesis using that(1) by (simp add: register_command_tool_def)
next
  case (Inr r1)
  then have v: "validate_command_template_binding b command = Inr ()"
    and r1: "register_locked f1 r b False (Some command) = Inr r1"
    by (auto simp: bind_res_Inr_iff)
  then have "map_of (tools r1) (tb_name b) = Some b" "map_of (command_templates r1) (tb_name b) = None"
    using assms by (auto simp: register_locked_Inr registry_ok_def map_of_update)
  with v r1 Inr show ?thesis
    by (intro that(2)) (simp_all add: register_command_tool_def try_register_command_template_locked_def)
qed

lemma command_tool_success:
  assumes "registry_ok r" and "validate_binding_with_scope b False (Some command) = Inr ()"
    and "validate_command_template_binding b command = Inr ()" and "map_of (tools r) (tb_name b) = None"
  shows "\<exists>r'. register_command_tool f1 f2 r b command args = (Inr (), r') \<and>
    tools r' = AList.update (tb_name b) b (tools r)"
  using assms by (simp add: register_command_tool_def try_register_command_template_locked_def
      register_locked_def registry_ok_def map_of_update)

lemma command_tool_ok:
  assumes "registry_ok r"
  shows "registry_ok (snd (register_command_tool f1 f2 r b command args))"
  using assms
proof (cases rule: command_tool_cases [of r f1 f2 b command args])
  case (2 r1)
  with assms show ?thesis
    by (fastforce simp: registry_ok_def register_locked_Inr published_def map_of_update wf_map_update)
qed (use assms in simp_all)

lemma reachable_ok: "registry_reachable r \<Longrightarrow> registry_ok r"
proof (induction rule: registry_reachable.induct)
  case start
  show ?case by (simp add: registry_ok_def registry_empty_def)
qed (auto simp: register_tool_def register_namespace_scoped_def template_rejected
    intro: register_locked_ok unregister_ok command_tool_ok)

section \<open>The built-in declarations are accepted\<close>

lemmas tool_defs = filesystem_tool_def launch_tool_def read_file_tool_def write_file_tool_def
  list_directory_tool_def http_get_tool_def run_command_tool_def search_files_tool_def git_status_tool_def
  create_directory_tool_def security_argument_def security_constant_def security_new_def sandboxed_def
  with_approval_def object_schema_def described_def typed_prop_def

lemmas validate_defs = validate_binding_with_scope_def provider_target_spec_def extractor_matches_target_def
  validate_schema_def argument_required_def json_get_def supports_resource_def for_provider_operation_def
  not_blank Let_def known_capabilities_def

lemma workspace_builtins_valid:
  "list_all (\<lambda>b. validate_binding_with_scope b False None = Inr ()) workspace_builtins"
  by (simp add: workspace_builtins_def tool_defs validate_defs)

lemma plain_builtins_valid:
  "validate_binding_with_scope read_file_tool False None = Inr ()"
  "validate_binding_with_scope write_file_tool False None = Inr ()"
  "validate_binding_with_scope list_directory_tool False None = Inr ()"
  "validate_binding_with_scope http_get_tool False None = Inr ()"
  "validate_binding_with_scope run_command_tool False None = Inr ()"
  "validate_binding_with_scope create_directory_tool False None = Inr ()"
  by (simp_all add: tool_defs validate_defs)

lemma templated_builtins_valid:
  "validate_binding_with_scope search_files_tool False (Some ''find'') = Inr ()"
  "validate_binding_with_scope git_status_tool False (Some ''git'') = Inr ()"
  "validate_command_template_binding search_files_tool ''find'' = Inr ()"
  "validate_command_template_binding git_status_tool ''git'' = Inr ()"
  by (simp_all add: tool_defs validate_defs validate_command_template_binding_def)

fun builtin_valid :: "builtin \<Rightarrow> bool" where
  "builtin_valid (Plain b) = (validate_binding_with_scope b False None = Inr ())"
| "builtin_valid (Templated b command args) = (validate_binding_with_scope b False (Some command) = Inr () \<and>
     validate_command_template_binding b command = Inr ())"

fun builtin_name :: "builtin \<Rightarrow> string" where
  "builtin_name (Plain b) = tb_name b"
| "builtin_name (Templated b command args) = tb_name b"

lemma run_builtins_ok:
  assumes "registry_ok r" and "\<forall>b\<in>set bs. builtin_valid b" and "distinct (map builtin_name bs)"
    and "\<forall>b\<in>set bs. map_of (tools r) (builtin_name b) = None"
  shows "\<exists>r'. run_builtins fresh bs r = Inr r' \<and> registry_ok r' \<and>
    keys_of (tools r') = keys_of (tools r) \<union> builtin_name ` set bs"
  using assms
proof (induction fresh bs r rule: run_builtins.induct)
  case (2 fresh b bs r)
  let ?r = "r\<lparr>tools := AList.update (tb_name b) b (tools r),
      binding_ids := AList.update (tb_name b) (fresh (2 * length bs)) (binding_ids r)\<rparr>"
  have reg: "register_tool (fresh (2 * length bs)) r b = Inr ?r"
    using 2 by (auto simp: register_tool_def register_locked_Inr)
  then have "registry_ok ?r" using 2(2) by (auto simp: register_tool_def intro: register_locked_ok)
  moreover have "\<forall>c\<in>set bs. map_of (tools ?r) (builtin_name c) = None"
    using 2(4,5) by (auto simp: map_of_update) (metis imageI)
  ultimately obtain r' where "run_builtins fresh bs ?r = Inr r'" "registry_ok r'"
      "keys_of (tools r') = keys_of (tools ?r) \<union> builtin_name ` set bs"
    using 2(1) [OF reg] 2(3,4) by auto
  with reg show ?case by (simp add: keys_of_update)
next
  case (3 fresh b command args bs r)
  let ?f1 = "fresh (2 * length bs)" and ?f2 = "fresh (2 * length bs + 1)"
  from 3 obtain r' where reg: "register_command_tool ?f1 ?f2 r b command args = (Inr (), r')"
    and tools: "tools r' = AList.update (tb_name b) b (tools r)"
    using command_tool_success [of r b command ?f1 ?f2 args] by auto
  then have "registry_ok r'" using command_tool_ok [OF 3(2), of ?f1 ?f2 b command args] by simp
  moreover have "\<forall>c\<in>set bs. map_of (tools r') (builtin_name c) = None"
    using 3(4,5) tools by (auto simp: map_of_update) (metis imageI)
  ultimately obtain r'' where "run_builtins fresh bs r' = Inr r''" "registry_ok r''"
      "keys_of (tools r'') = keys_of (tools r') \<union> builtin_name ` set bs"
    using 3(1) [OF reg [symmetric]] 3(3,4) by auto
  with reg tools show ?case by (simp add: keys_of_update)
qed simp

section \<open>Preparation\<close>

lemma prepare_bound_Inr:
  "prepare_bound_execution to_vec sha256 show_uuid show_json r agent name args bid = Inr p \<longleftrightarrow>
     (\<forall>expected. bid = Some expected \<longrightarrow> map_of (binding_ids r) name = Some expected) \<and>
     (\<exists>auth resolved request bytes.
        prepare_call_locked show_json r name args = Inr auth \<and>
        resolve_locked show_uuid show_json r agent name args = Some resolved \<and>
        normalize_request name resolved = Inr request \<and>
        provider_target (req_type request) (req_operation request) (req_parameters request)
          = Inr (call_resource auth) \<and>
        to_vec (contract_json (call_security auth) request) = Inr bytes \<and>
        p = \<lparr>authorization = auth, exec_request = request,
              approval_contract_digest = opaque_identity sha256 bytes\<rparr>)"
  by (cases bid) (auto simp: prepare_bound_execution_def res_simps simp del: bind_res_simps)

lemma prepare_call_Inr:
  assumes "prepare_call_locked show_json r name args = Inr auth"
  shows "\<exists>b. map_of (tools r) name = Some b \<and> call_security auth = tb_security b \<and>
     (\<exists>res. extract_resource (tb_security b) args = Inr res \<and>
       (if tb_resource_type b = Filesystem then normalize_filesystem_target res = Inr (call_resource auth)
        else call_resource auth = res))"
proof -
  from assms obtain s res' where ctx: "security_context_locked r name args = Inr (s, res')"
    and auth: "call_security auth = s" "call_resource auth = res'"
    by (auto simp: prepare_call_locked_def bind_res_Inr_iff)
  from ctx obtain b res where "map_of (tools r) name = Some b" "extract_resource (tb_security b) args = Inr res"
    by (auto simp: security_context_locked_def bind_res_Inr_iff ok_or_def split: option.splits)
  with ctx auth show ?thesis
    by (cases "normalize_filesystem_target res") (auto simp: security_context_locked_def split: if_splits)
qed

lemma normalize_request_Inr:
  assumes "normalize_request name resolved = Inr request"
  shows "req_agent request = req_agent resolved \<and> req_type request = req_type resolved \<and>
    req_operation request = req_operation resolved \<and>
    (req_type resolved \<noteq> Filesystem \<longrightarrow> request = resolved)"
  using assms by (auto simp: normalize_request_def split: if_splits sum.splits option.splits)

text \<open>The parameter that carries the caller's identity to an IPC or memory provider.\<close>

definition identity_field :: "ResourceType \<Rightarrow> string \<Rightarrow> string" where
  "identity_field rt op = (if rt = Memory \<or> op = ''receive'' \<or> op = ''stat'' then ''agent''
     else if op = ''discover'' then ''viewer'' else ''from'')"

lemma provider_parameters_identity:
  assumes "provider_parameters show_uuid agent rt op args = Some ps" and "rt = Ipc \<or> rt = Memory"
    and "provider_target_spec rt op \<noteq> None"
  shows "json_get ps (identity_field rt op) = Some (JString (show_uuid agent))"
proof (cases "rt = Memory")
  case True
  with assms(1) show ?thesis
    by (auto simp: provider_parameters_def identity_field_def json_get_def map_of_update)
next
  case False
  with assms(2,3) have "rt = Ipc" and "op \<in> {''send'', ''delegate'', ''delegation_status'',
      ''complete_delegation'', ''receive'', ''stat'', ''discover''}"
    by (auto simp: provider_target_spec_def split: if_split_asm)
  with assms(1) show ?thesis
    by (elim insertE emptyE; auto simp: provider_parameters_def identity_field_def json_get_def)
qed

lemma resolve_type:
  assumes "registry_ok r" and "map_of (tools r) name = Some b"
    and "resolve_locked show_uuid show_json r agent name args = Some request"
  shows "req_agent request = agent \<and> req_type request = tb_resource_type b \<and>
    req_operation request = tb_operation b \<and>
    (tb_resource_type b \<noteq> Application \<longrightarrow>
      provider_parameters show_uuid agent (tb_resource_type b) (tb_operation b) args = Some (req_parameters request))"
  using assms(2,3) by (auto simp: resolve_locked_def Let_def split: option.splits if_splits)

lemma published_target:
  assumes "registry_ok r" and "map_of (tools r) name = Some b"
  obtains spec where "provider_target_spec (tb_resource_type b) (tb_operation b) = Some spec"
proof -
  from assms have "published r name b" by (simp add: registry_ok_def)
  then obtain ns fixed where "validate_binding_with_scope b ns fixed = Inr ()"
    by (auto simp: published_def)
  then show thesis by (rule validate_facts) (rule that)
qed










section \<open>The contract determines the call\<close>

definition value_of :: "string \<Rightarrow> nat" where
  "value_of s = foldl (\<lambda>a c. 10 * a + (of_char c - 48)) 0 s"

lemma decimal_digit: "k < 10 \<Longrightarrow> (of_char (''0123456789'' ! k) :: nat) = 48 + k"
proof -
  have "\<forall>k<10. (of_char (''0123456789'' ! k) :: nat) = 48 + k" by (simp add: All_less_Suc numeral_nat)
  then show "k < 10 \<Longrightarrow> (of_char (''0123456789'' ! k) :: nat) = 48 + k" by blast
qed

lemma value_of_decimal: "value_of (decimal n) = n"
proof (induction n rule: decimal.induct)
  case (1 n)
  show ?case
  proof (cases "n < 10")
    case True
    then show ?thesis by (simp add: decimal.simps [of n] value_of_def decimal_digit)
  next
    case False
    have "(of_char (''0123456789'' ! (n mod 10)) :: nat) = 48 + n mod 10" by (rule decimal_digit) simp
    with 1 [OF False] False show ?thesis by (simp add: decimal.simps [of n] value_of_def)
  qed
qed

lemma decimal_inj: "decimal (unat a) = decimal (unat b) \<longleftrightarrow> a = b" for a b :: u64
  by (metis value_of_decimal unsigned_word_eqI)

lemma capabilities_json_inj:
  "map (\<lambda>c. JNumber (decimal (unat c))) xs = map (\<lambda>c. JNumber (decimal (unat c))) ys \<longleftrightarrow> xs = ys"
  for xs ys :: "u64 list"
  by (rule inj_map_eq_map) (auto simp: inj_def decimal_inj)

lemma action_kebab_inj: "action_kebab a = action_kebab b \<longleftrightarrow> a = b"
  by (cases a; cases b) simp_all

lemma security_json_inj: "security_json s = security_json t \<longleftrightarrow> (s :: ToolSecurity) = t"
proof
  assume eq: "security_json s = security_json t"
  then have "sec_action s = sec_action t" "required_capabilities s = required_capabilities t"
    by (simp_all add: security_json_def action_kebab_inj capabilities_json_inj)
  moreover from eq have "resource_extractor s = resource_extractor t"
    by (auto simp: security_json_def split: ResourceExtractor.splits)
  moreover from eq have "approval_policy s = approval_policy t"
    by (cases "approval_policy s"; cases "approval_policy t") (simp_all add: security_json_def)
  moreover from eq have "namespace_visibility s = namespace_visibility t"
    by (cases "namespace_visibility s"; cases "namespace_visibility t") (simp_all add: security_json_def)
  moreover from eq have "sandbox_requirement s = sandbox_requirement t"
    by (cases "sandbox_requirement s"; cases "sandbox_requirement t") (simp_all add: security_json_def)
  ultimately show "s = t" by simp
qed simp

lemma contract_json_inj:
  "contract_json s q = contract_json t q' \<longleftrightarrow> s = t \<and> req_operation q = req_operation q' \<and>
     req_parameters q = req_parameters q' \<and> req_type q = req_type q'"
  by (auto simp: contract_json_def security_json_inj)

section \<open>Properties\<close>

text \<open>C22: Every tool in a registry built by registrations and removals carries its action's
  mandatory capabilities, the one action of its provider operation, the approval its risk
  requires, a sandbox where one is required, and a binding identifier.\<close>

theorem published_tool_secure:
  assumes "registry_reachable r" and "map_of (tools r) name = Some b"
  shows "tb_name b = name \<and> map_of (binding_ids r) name \<noteq> None \<and>
    for_provider_operation (tb_resource_type b) (tb_operation b) = Some (sec_action (tb_security b)) \<and>
    set (mandatory_capabilities (sec_action (tb_security b))) \<subseteq> set (required_capabilities (tb_security b)) \<and>
    (sec_action (tb_security b) \<in> {CredentialAccess, PackageInstall} \<longrightarrow>
       approval_policy (tb_security b) = Administrator) \<and>
    (sec_action (tb_security b) \<in> {Delete, BrowserAutomation} \<or> tb_resource_type b = Peripheral \<longrightarrow>
       approval_policy (tb_security b) \<noteq> NoApproval) \<and>
    (sec_action (tb_security b) \<in> {Execute, Delete, PackageInstall, BrowserAutomation, CredentialAccess} \<or>
       tb_resource_type b = Peripheral \<longrightarrow> sandbox_requirement (tb_security b) = Required)"
proof -
  from reachable_ok [OF assms(1)] assms(2) have pub: "published r name b" by (simp add: registry_ok_def)
  then obtain ns fixed where "validate_binding_with_scope b ns fixed = Inr ()"
    by (auto simp: published_def)
  then show ?thesis by (rule validate_facts) (use pub in \<open>simp add: published_def\<close>)
qed

definition demo_registry :: ToolRegistry where
  "demo_registry = snd (register_command_tool 1 2 registry_empty search_files_tool ''find''
     [''{directory}'', ''-name'', ''{pattern}''])"

lemma demo_registry_reachable: "registry_reachable demo_registry"
  unfolding demo_registry_def by (rule registry_reachable.command [OF registry_reachable.start])

lemma demo_registry_eq: "demo_registry = \<lparr>tools = [(''search_files'', search_files_tool)],
    binding_ids = [(''search_files'', 2)],
    command_templates = [(''search_files'', ''find'', [''{directory}'', ''-name'', ''{pattern}''])]\<rparr>"
proof -
  have "tb_name search_files_tool = ''search_files''" by (simp add: tool_defs)
  then show ?thesis
    by (simp add: demo_registry_def register_command_tool_def templated_builtins_valid register_locked_def
        registry_empty_def try_register_command_template_locked_def)
qed

theorem published_tool_secure_witness:
  "sandbox_requirement (tb_security search_files_tool) = Required \<and>
   set (mandatory_capabilities Execute) \<subseteq> set (required_capabilities (tb_security search_files_tool))"
proof -
  have "map_of (tools demo_registry) ''search_files'' = Some search_files_tool"
    by (simp add: demo_registry_eq)
  from published_tool_secure [OF demo_registry_reachable this] show ?thesis
    by (simp add: search_files_tool_def launch_tool_def security_constant_def security_new_def sandboxed_def)
qed

text \<open>C9: A prepared execution is bound to its caller and to what was authorised: the request
  names the calling agent, the provider will act on exactly the authorised resource (in
  normal form for files), through the published binding, and an IPC or memory request
  carries the caller's own identity, whatever the arguments say.\<close>

theorem prepared_request_bound:
  assumes "registry_reachable r"
    and "prepare_bound_execution to_vec sha256 show_uuid show_json r agent name args bid = Inr p"
  shows "\<exists>b. map_of (tools r) name = Some b \<and> call_security (authorization p) = tb_security b \<and>
    req_agent (exec_request p) = agent \<and> req_type (exec_request p) = tb_resource_type b \<and>
    req_operation (exec_request p) = tb_operation b \<and>
    provider_target (tb_resource_type b) (tb_operation b) (req_parameters (exec_request p))
      = Inr (call_resource (authorization p)) \<and>
    (tb_resource_type b = Filesystem \<longrightarrow>
       (\<exists>t. normalize_filesystem_target t = Inr (call_resource (authorization p)))) \<and>
    (tb_resource_type b \<in> {Ipc, Memory} \<longrightarrow>
       json_get (req_parameters (exec_request p)) (identity_field (tb_resource_type b) (tb_operation b))
         = Some (JString (show_uuid agent)))"
proof -
  note ok = reachable_ok [OF assms(1)]
  from assms(2) obtain auth resolved request where
    auth: "prepare_call_locked show_json r name args = Inr auth" "authorization p = auth"
    and res: "resolve_locked show_uuid show_json r agent name args = Some resolved"
    and norm: "normalize_request name resolved = Inr request" "exec_request p = request"
    and target: "provider_target (req_type request) (req_operation request) (req_parameters request)
          = Inr (call_resource auth)"
    by (auto simp: prepare_bound_Inr)
  from prepare_call_Inr [OF auth(1)] obtain b x where b: "map_of (tools r) name = Some b"
    "call_security auth = tb_security b" and x: "if tb_resource_type b = Filesystem
       then normalize_filesystem_target x = Inr (call_resource auth) else call_resource auth = x"
    by blast
  note rt = resolve_type [OF ok b(1) res] and nr = normalize_request_Inr [OF norm(1)]
  obtain spec where "provider_target_spec (tb_resource_type b) (tb_operation b) = Some spec"
    using published_target [OF ok b(1)] .
  with rt nr have "tb_resource_type b \<in> {Ipc, Memory} \<longrightarrow>
     json_get (req_parameters request) (identity_field (tb_resource_type b) (tb_operation b))
       = Some (JString (show_uuid agent))"
    using provider_parameters_identity [of show_uuid agent "tb_resource_type b" "tb_operation b" args]
    by auto
  with b x rt nr target auth(2) norm(2) show ?thesis by auto
qed

definition demo_args :: json where
  "demo_args = JObject [(''directory'', JString ''src''), (''pattern'', JString ''*.rs'')]"

definition demo_parameters :: json where
  "demo_parameters = JObject [(''args'', JArray [JString ''src'', JString ''-name'', JString ''*.rs'']),
     (''command'', JString ''find'')]"

definition demo_prepared :: PreparedToolExecution where
  "demo_prepared = \<lparr>authorization = \<lparr>call_security = tb_security search_files_tool,
       call_resource = ''find'', estimated_tokens = 13\<rparr>,
     exec_request = \<lparr>req_agent = 9, req_type = Application, req_operation = ''launch'',
       req_parameters = demo_parameters, sandbox_context = None, gate_admission = None\<rparr>,
     approval_contract_digest = ''sha256:''\<rparr>"

lemma demo_args_expand:
  "expand_args (\<lambda>_. []) demo_args [''{directory}'', ''-name'', ''{pattern}''] = [''src'', ''-name'', ''*.rs'']"
  by (simp add: expand_args_def demo_args_def replace_all.simps)

lemma demo_prepare:
  "prepare_bound_execution (\<lambda>_. Inr []) (\<lambda>_. []) (\<lambda>_. ''me'') (\<lambda>_. []) demo_registry 9 ''search_files''
     demo_args None = Inr demo_prepared"
proof -
  have sec: "tb_resource_type search_files_tool = Application" "tb_operation search_files_tool = ''launch''"
    "sec_action (tb_security search_files_tool) = Execute" "resource_extractor (tb_security search_files_tool) = Constant ''find''"
    "required_capabilities (tb_security search_files_tool) = [CAP_EXEC]"
    "sandbox_requirement (tb_security search_files_tool) = Required"
    by (simp_all add: tool_defs)
  show ?thesis
    by (simp add: prepare_bound_execution_def prepare_call_locked_def security_context_locked_def demo_registry_eq
        extract_resource_def sec not_blank resolve_locked_def Let_def demo_args_expand normalize_request_def
        provider_target_def provider_target_spec_def nonblank_str_def json_get_def opaque_identity_def
        demo_prepared_def demo_parameters_def sat_add_def)
qed

theorem prepared_request_bound_witness:
  "registry_reachable demo_registry \<and> req_agent (exec_request demo_prepared) = 9 \<and>
   provider_target Application ''launch'' demo_parameters = Inr ''find''"
proof -
  have "map_of (tools demo_registry) ''search_files'' = Some search_files_tool"
    by (simp add: demo_registry_eq)
  moreover have "tb_resource_type search_files_tool = Application" "tb_operation search_files_tool = ''launch''"
    by (simp_all add: tool_defs)
  ultimately show ?thesis
    using prepared_request_bound [OF demo_registry_reachable demo_prepare] demo_registry_reachable
    by (auto simp: demo_prepared_def)
qed



text \<open>Validation of a declaration never panics: the table of provider targets and the table
  of security actions cover the same operations, so the \<open>expect\<close> between them cannot fail.\<close>

theorem validation_never_panics:
  "validate_binding_with_scope b has_concrete_namespace fixed \<noteq> Inl Panic"
  by (rule validate_no_panic)

text \<open>Constructing the registry succeeds: every built-in declaration passes validation, and
  exactly the eleven built-in tools are published.\<close>

theorem builtins_registered:
  "\<exists>r. registry_new fresh = Inr r \<and> registry_ok r \<and>
    keys_of (tools r) = {''stat_path'', ''read_file_bytes'', ''write_file_bytes'', ''read_file'', ''write_file'',
      ''list_directory'', ''http_get'', ''run_command'', ''search_files'', ''git_status'', ''create_directory''}"
proof -
  have names: "map builtin_name builtins = [''stat_path'', ''read_file_bytes'', ''write_file_bytes'', ''read_file'',
      ''write_file'', ''list_directory'', ''http_get'', ''run_command'', ''search_files'', ''git_status'', ''create_directory'']"
    by (simp add: builtins_def workspace_builtins_def tool_defs)
  have "list_all builtin_valid builtins"
    using workspace_builtins_valid
    by (simp add: builtins_def list.pred_map comp_def plain_builtins_valid templated_builtins_valid)
  then have "\<forall>b\<in>set builtins. builtin_valid b" by (simp add: list_all_iff)
  moreover have "registry_ok registry_empty" by (rule reachable_ok [OF registry_reachable.start])
  moreover have "distinct (map builtin_name builtins)" unfolding names by simp
  ultimately obtain r where r: "run_builtins fresh builtins registry_empty = Inr r" "registry_ok r"
      "keys_of (tools r) = builtin_name ` set builtins"
    using run_builtins_ok [of registry_empty builtins fresh] by (auto simp: registry_empty_def)
  have "builtin_name ` set builtins = set (map builtin_name builtins)" by simp
  with r show ?thesis unfolding registry_new_def names by auto
qed

text \<open>C36: On every registry the operations can reach, the public
  \<open>register_command_template\<close> changes nothing: a binding that passes its check was published
  together with its template, so the call is refused either way.\<close>

theorem register_command_template_inert:
  assumes "registry_reachable r"
  shows "register_command_template fresh r name command args = r"
  using template_rejected [OF reachable_ok [OF assms]] .

theorem register_command_template_inert_witness:
  "register_command_template 5 demo_registry ''search_files'' ''find'' [''{directory}''] = demo_registry"
  by (rule register_command_template_inert [OF demo_registry_reachable])

text \<open>C24: The approval digest identifies the call: two prepared executions with the same digest
  have the same security contract, resource type, operation and parameters, provided the two
  serialised contracts have no digest collision.\<close>

theorem approval_digest_identifies_call:
  assumes "prepare_bound_execution to_vec sha256 show_uuid show_json r a n args bid = Inr p"
    and "prepare_bound_execution to_vec sha256 show_uuid show_json r' a' n' args' bid' = Inr p'"
    and "approval_contract_digest p = approval_contract_digest p'"
    and no_collision: "map_sum id sha256 (to_vec (contract_json (call_security (authorization p)) (exec_request p))) =
        map_sum id sha256 (to_vec (contract_json (call_security (authorization p')) (exec_request p'))) \<Longrightarrow>
      contract_json (call_security (authorization p)) (exec_request p) =
        contract_json (call_security (authorization p')) (exec_request p')"
  shows "call_security (authorization p) = call_security (authorization p') \<and>
    req_type (exec_request p) = req_type (exec_request p') \<and>
    req_operation (exec_request p) = req_operation (exec_request p') \<and>
    req_parameters (exec_request p) = req_parameters (exec_request p')"
proof -
  have "contract_json (call_security (authorization p)) (exec_request p) =
        contract_json (call_security (authorization p')) (exec_request p')"
    using assms(1-3) by (intro no_collision) (auto simp: prepare_bound_Inr opaque_identity_inj)
  then show ?thesis by (simp add: contract_json_inj)
qed

theorem approval_digest_identifies_call_witness:
  "approval_contract_digest demo_prepared = ''sha256:'' \<and>
   req_parameters (exec_request demo_prepared) = demo_parameters"
  using approval_digest_identifies_call [OF demo_prepare demo_prepare] by (simp add: demo_prepared_def)

end
