(* ===== verification/Policy.thy ===== *)
theory Policy
  imports Mac Tools "HOL-Library.Char_ord" "HOL-Library.List_Lexorder"
begin

text \<open>
  Policy documents (\<open>crates/kernel/src/policy.rs\<close>): the authored rules with their typed
  decisions and declared default, validation, lints, the lowering to the rules of the
  access control engine, and \<open>explain\<close>. The TOML parser is an argument.
\<close>

section \<open>Documents\<close>

datatype Decision = Allow | Deny | Audit

fun as_engine_str :: "Decision \<Rightarrow> string" where
  "as_engine_str Decision.Allow = ''allow''"
| "as_engine_str Decision.Deny = ''deny''"
| "as_engine_str Decision.Audit = ''audit''"

fun to_mac :: "Decision \<Rightarrow> MacDecision" where
  "to_mac Decision.Allow = MacDecision.Allow"
| "to_mac Decision.Deny = MacDecision.Deny"
| "to_mac Decision.Audit = MacDecision.Audit"

fun decision_debug :: "Decision \<Rightarrow> string" where
  "decision_debug Decision.Allow = ''Allow''"
| "decision_debug Decision.Deny = ''Deny''"
| "decision_debug Decision.Audit = ''Audit''"

record Rule =
  pr_name :: "string option"
  pr_description :: "string option"
  pr_subject :: string
  pr_action :: string
  pr_object :: string
  pr_decision :: Decision

record PolicyDocument =
  version :: u32
  doc_description :: "string option"
  doc_enforcing :: bool
  doc_default :: Decision
  doc_rules :: "Rule list"

record Lint =
  rule_index :: "nat option"
  lint_message :: string

record Explanation =
  expl_decision :: MacDecision
  matched_rule :: "nat option"
  matched_name :: "string option"
  used_default :: bool

section \<open>Validation\<close>

definition all_actions :: "SecurityAction list" where
  "all_actions = [Read, Write, Delete, SecurityAction.Network, Execute, IpcAction, BrowserAutomation,
     CredentialAccess, PackageInstall]"

definition canonical_action_labels :: "string list" where
  "canonical_action_labels = map action_str all_actions"

definition rule_tag :: "string option \<Rightarrow> string" where
  "rule_tag name = (case name of Some n \<Rightarrow> '' ('' @ n @ '')'' | None \<Rightarrow> [])"

definition validate_action_label :: "nat \<Rightarrow> string option \<Rightarrow> string \<Rightarrow> string + unit" where
  "validate_action_label i name action =
     (if action = ''*'' \<or> (\<exists>a\<in>set all_actions. action_str a = action) then Inr ()
      else Inl (''rule #'' @ decimal i @ rule_tag name @ '' uses unknown action label '' @ quoted action @
        ''; expected one of: '' @ join_with '', '' canonical_action_labels @
        '' (labels come from ToolSecurity, for example `exec`, not `execute`)''))"

fun validate_engine_rules_from :: "nat \<Rightarrow> PolicyRule list \<Rightarrow> string + unit" where
  "validate_engine_rules_from i [] = Inr ()"
| "validate_engine_rules_from i (r # rs) =
     (if trim_is_empty (rule_subject r) \<or> trim_is_empty (rule_action r) \<or> trim_is_empty (rule_object r)
      then Inl (''inline MAC rule #'' @ decimal i @ '' has an empty subject/action/object field'')
      else bind_res (validate_action_label i None (rule_action r)) (\<lambda>_.
        if rule_decision r \<notin> {''allow'', ''deny'', ''audit''}
        then Inl (''inline MAC rule #'' @ decimal i @ '' uses unknown decision '' @ quoted (rule_decision r) @
          ''; expected allow, deny, or audit'')
        else validate_engine_rules_from (Suc i) rs))"

definition validate_engine_rules :: "PolicyRule list \<Rightarrow> string + unit" where
  "validate_engine_rules rs = validate_engine_rules_from 0 rs"

fun validate_rules_from :: "nat \<Rightarrow> Rule list \<Rightarrow> string + unit" where
  "validate_rules_from i [] = Inr ()"
| "validate_rules_from i (r # rs) =
     (if trim_is_empty (pr_subject r) \<or> trim_is_empty (pr_action r) \<or> trim_is_empty (pr_object r)
      then Inl (''rule #'' @ decimal i @ rule_tag (pr_name r) @ '' has an empty subject/action/object field'')
      else bind_res (validate_action_label i (pr_name r) (pr_action r)) (\<lambda>_. validate_rules_from (Suc i) rs))"

definition validate :: "PolicyDocument \<Rightarrow> string + unit" where
  "validate d =
     (if version d \<noteq> 1
      then Inl (''unsupported policy version '' @ decimal (unat (version d)) @ '' (this build understands version 1)'')
      else validate_rules_from 0 (doc_rules d))"

text \<open>
  \<open>has_default\<close> parses to a generic TOML value and looks for the key \<open>default\<close>; \<open>parse\<close>
  parses to a document, with the defaults of the missing fields.
\<close>

definition from_toml ::
    "(string \<Rightarrow> string + bool) \<Rightarrow> (string \<Rightarrow> string + PolicyDocument) \<Rightarrow> string \<Rightarrow> string + PolicyDocument" where
  "from_toml has_default parse s =
     bind_res (has_default s) (\<lambda>declared.
       if \<not> declared
       then Inl (''policy must declare an explicit terminal `default = \"deny\"|\"allow\"|\"audit\"`'')
       else bind_res (parse s) (\<lambda>d. bind_res (validate d) (\<lambda>_. Inr d)))"

section \<open>Lowering\<close>

definition lower_rule :: "Rule \<Rightarrow> PolicyRule" where
  "lower_rule r = \<lparr>rule_subject = pr_subject r, rule_action = pr_action r, rule_object = pr_object r,
     rule_decision = as_engine_str (pr_decision r)\<rparr>"

definition compile :: "PolicyDocument \<Rightarrow> PolicyRule list" where
  "compile d = map lower_rule (doc_rules d) @
     (if doc_default d \<noteq> Decision.Deny
      then [\<lparr>rule_subject = ''*'', rule_action = ''*'', rule_object = ''*'',
             rule_decision = as_engine_str (doc_default d)\<rparr>]
      else [])"

definition to_engine :: "PolicyDocument \<Rightarrow> MacEngine" where
  "to_engine d = load_policy (mac_new (doc_enforcing d)) (compile d)"

definition explain :: "PolicyDocument \<Rightarrow> string \<Rightarrow> string \<Rightarrow> string \<Rightarrow> Explanation" where
  "explain d subject action object =
     (case evaluate (to_engine d) subject action object object of (decision, matched) \<Rightarrow>
        \<lparr>expl_decision = decision, matched_rule = matched,
         matched_name = Option.bind matched (\<lambda>i. if i < length (doc_rules d) then pr_name (doc_rules d ! i) else None),
         used_default = (matched = None)\<rparr>)"

section \<open>Lints\<close>

definition selector_covers :: "string \<Rightarrow> string \<Rightarrow> bool" where
  "selector_covers earlier later \<longleftrightarrow> earlier = ''*'' \<or> earlier = later"

definition object_selector_covers :: "string \<Rightarrow> string \<Rightarrow> bool" where
  "object_selector_covers earlier later =
     (if earlier = ''*'' \<or> earlier = ''**'' \<or> earlier = later then True
      else if CHR ''*'' \<in> set later \<or> CHR ''?'' \<in> set later then False
      else snd (evaluate (load_policy (mac_new True)
            [\<lparr>rule_subject = ''*'', rule_action = ''*'', rule_object = earlier, rule_decision = ''allow''\<rparr>])
          ''*'' ''*'' later later) \<noteq> None)"

definition rule_selector_covers :: "Rule \<Rightarrow> Rule \<Rightarrow> bool" where
  "rule_selector_covers earlier later \<longleftrightarrow>
     selector_covers (pr_subject earlier) (pr_subject later) \<and>
     selector_covers (pr_action earlier) (pr_action later) \<and>
     object_selector_covers (pr_object earlier) (pr_object later)"

definition shadow_lint :: "PolicyDocument \<Rightarrow> nat \<Rightarrow> Lint list" where
  "shadow_lint d i =
     (case position (\<lambda>earlier. rule_selector_covers earlier (doc_rules d ! i)) (take i (doc_rules d)) of
        Some shadowing \<Rightarrow> [\<lparr>rule_index = Some i, lint_message = ''rule #'' @ decimal i @
          '' is unreachable: earlier rule #'' @ decimal shadowing @
          '' matches every subject/action/object it can match''\<rparr>]
      | None \<Rightarrow> [])"

definition wildcard_lint :: "PolicyDocument \<Rightarrow> nat \<Rightarrow> Lint list" where
  "wildcard_lint d i = (let r = doc_rules d ! i in
     if pr_decision r \<noteq> Decision.Deny \<and> pr_action r = ''*''
     then [\<lparr>rule_index = Some i, lint_message =
        ''overbroad wildcard allows or audits every action for the matched subject and resource''\<rparr>]
     else [])"

definition lint :: "PolicyDocument \<Rightarrow> Lint list" where
  "lint d =
     (if \<not> doc_enforcing d then [\<lparr>rule_index = None, lint_message =
        ''SECURITY: policy is permissive; deny/audit decisions are logged but not enforced''\<rparr>] else []) @
     (if doc_default d \<noteq> Decision.Deny then [\<lparr>rule_index = None, lint_message =
        ''SECURITY: terminal default is '' @ decision_debug (doc_default d) @
        ''; every otherwise-unmatched action is permitted''\<rparr>] else []) @
     (if doc_enforcing d \<and> doc_rules d = [] \<and> doc_default d = Decision.Deny
      then [\<lparr>rule_index = None, lint_message =
        ''enforcing policy has no rules and default = deny: every confined action will be denied''\<rparr>] else []) @
     concat (map (\<lambda>i. shadow_lint d i @ wildcard_lint d i) [0..<length (doc_rules d)])"

definition SUPPORTED_POLICY_PROFILES :: "string list" where
  "SUPPORTED_POLICY_PROFILES =
     [''profile:read-only'', ''profile:standard'', ''profile:elevated'', ''profile:full-access'']"

fun canonical_resource_label :: "ResourceType \<Rightarrow> string" where
  "canonical_resource_label Filesystem = ''filesystem''"
| "canonical_resource_label ResourceType.Network = ''network''"
| "canonical_resource_label Application = ''application''"
| "canonical_resource_label Browser = ''browser''"
| "canonical_resource_label Peripheral = ''peripheral''"
| "canonical_resource_label Ipc = ''ipc''"
| "canonical_resource_label Memory = ''memory''"

definition representative_resource :: "ToolBinding \<Rightarrow> string" where
  "representative_resource b = (case resource_extractor (tb_security b) of
     Constant resource \<Rightarrow> resource
   | Argument _ \<Rightarrow> (case tb_resource_type b of
        Filesystem \<Rightarrow> ''/__agentos_policy_probe__''
      | ResourceType.Network \<Rightarrow> ''https://policy-probe.invalid/''
      | Browser \<Rightarrow> ''https://policy-probe.invalid/''
      | Application \<Rightarrow> ''__agentos_policy_probe_command__''
      | Peripheral \<Rightarrow> ''__agentos_policy_probe_device__''
      | Ipc \<Rightarrow> ''__agentos_policy_probe_agent__''
      | Memory \<Rightarrow> ''__agentos_policy_probe_key__''))"

definition uncovered_profiles :: "PolicyDocument \<Rightarrow> ToolBinding \<Rightarrow> string list" where
  "uncovered_profiles d b =
     filter (\<lambda>profile. \<forall>object_label \<in> set [''unconfined'', canonical_resource_label (tb_resource_type b)].
        \<not> (case snd (evaluate (to_engine d) profile (action_str (sec_action (tb_security b))) object_label
                 (representative_resource b)) of
             Some index \<Rightarrow> index < length (doc_rules d) | None \<Rightarrow> False))
       SUPPORTED_POLICY_PROFILES"

definition coverage_lint :: "PolicyDocument \<Rightarrow> string \<times> ToolBinding \<Rightarrow> Lint list" where
  "coverage_lint d entry = (case entry of (tool, b) \<Rightarrow>
     if uncovered_profiles d b \<noteq> []
     then [\<lparr>rule_index = None, lint_message = ''tool '' @ quoted tool @ '' action '' @
        quoted (action_str (sec_action (tb_security b))) @ '' resource class '' @
        quoted (canonical_resource_label (tb_resource_type b)) @ '' is uncovered for supported profiles ['' @
        join_with '', '' (uncovered_profiles d b) @ ''] and falls directly to default '' @
        decision_debug (doc_default d)\<rparr>]
     else [])"

definition lint_with_tool_registry :: "PolicyDocument \<Rightarrow> ToolRegistry \<Rightarrow> Lint list" where
  "lint_with_tool_registry d registry =
     lint d @ concat (map (coverage_lint d) (sort_key fst (binding_catalog registry)))"

section \<open>What the lowering means\<close>

text \<open>The reference reading of a document: the first authored rule that matches, else the default.\<close>

definition authored_hit :: "mac_query \<Rightarrow> Rule \<Rightarrow> bool" where
  "authored_hit q r = rule_hit (lower_rule r) q"


lemma decision_roundtrip [simp]: "decision_of (as_engine_str d) = to_mac d"
  by (cases d) (simp_all add: decision_of_def)

lemma catch_all_hit: "rule_hit \<lparr>rule_subject = ''*'', rule_action = ''*'', rule_object = ''*'', rule_decision = dec\<rparr> q"
  by (simp add: rule_hit_def matches_def object_matches_def split: prod.split)

lemma position_compile:
  "position (\<lambda>r. rule_hit r q) (compile d) =
     (case position (authored_hit q) (doc_rules d) of
        Some i \<Rightarrow> Some i
      | None \<Rightarrow> if doc_default d \<noteq> Decision.Deny then Some (length (doc_rules d)) else None)"
  by (simp add: compile_def position_append position_map comp_def authored_hit_def [abs_def] catch_all_hit
      split: option.split)



lemma engine_parts [simp]:
  "enforcing (to_engine d) = doc_enforcing d" "mac_default (to_engine d) = MacDecision.Deny"
  "mac_rules (to_engine d) = compile d"
  by (simp_all add: to_engine_def load_policy_def mac_new_def)

lemma to_engine_index:
  "snd (evaluate (to_engine d) s a l r) = position (\<lambda>p. rule_hit p (s, a, l, r)) (compile d)"
  by (simp add: evaluate_def mac_fm.decide_index)

lemma position_SomeD: "position P xs = Some i \<Longrightarrow> i < length xs \<and> P (xs ! i)"
  by (simp add: position_Some_iff)


section \<open>What the lints mean\<close>

lemma object_covers_sound:
  assumes "object_selector_covers earlier later" and "object_matches later ob ob"
  shows "object_matches earlier ob ob"
proof (cases "earlier = ''*'' \<or> earlier = ''**'' \<or> earlier = later")
  case True
  with assms(2) show ?thesis by (auto simp: object_matches_def matches_def glob_any)
next
  case False
  with assms(1) have lit: "CHR ''*'' \<notin> set later" "CHR ''?'' \<notin> set later"
    and some: "object_matches earlier later later"
    by (auto simp: object_selector_covers_def evaluate_def load_policy_def mac_new_def rule_hit_def matches_def
        split: if_splits)
  from lit have "later \<noteq> ''*''" by auto
  with assms(2) have "later = ob" using glob_literal [OF lit] by (auto simp: object_matches_def matches_def)
  with some show ?thesis by simp
qed

lemma rule_covers_sound:
  assumes "rule_selector_covers earlier later" and "authored_hit (s, a, ob, ob) later"
  shows "authored_hit (s, a, ob, ob) earlier"
  using assms object_covers_sound [of "pr_object earlier" "pr_object later" ob]
  by (auto simp: rule_selector_covers_def selector_covers_def authored_hit_def rule_hit_def lower_rule_def matches_def)

lemma shadowed_iff:
  assumes "i < length (doc_rules d)"
  shows "shadow_lint d i \<noteq> [] \<longleftrightarrow> (\<exists>j<i. rule_selector_covers (doc_rules d ! j) (doc_rules d ! i))"
proof -
  have "shadow_lint d i \<noteq> [] \<longleftrightarrow>
      position (\<lambda>e. rule_selector_covers e (doc_rules d ! i)) (take i (doc_rules d)) \<noteq> None"
    by (simp add: shadow_lint_def split: option.split)
  also have "\<dots> \<longleftrightarrow> (\<exists>e\<in>set (take i (doc_rules d)). rule_selector_covers e (doc_rules d ! i))"
    by (simp only: position_None_iff) simp
  also have "set (take i (doc_rules d)) = (!) (doc_rules d) ` {0..<i}"
    using assms by (simp add: nth_image)
  finally show ?thesis by auto
qed

lemma validate_rules_Inr:
  "validate_rules_from i rs = Inr () \<longleftrightarrow> (\<forall>r\<in>set rs. \<not> trim_is_empty (pr_subject r) \<and>
     \<not> trim_is_empty (pr_action r) \<and> \<not> trim_is_empty (pr_object r) \<and>
     (pr_action r = ''*'' \<or> (\<exists>a\<in>set all_actions. action_str a = pr_action r)))"
  by (induction rs arbitrary: i) (auto simp: bind_res_Inr_iff validate_action_label_def)

lemma validate_engine_rules_Inr:
  "validate_engine_rules_from i rs = Inr () \<longleftrightarrow> (\<forall>r\<in>set rs. \<not> trim_is_empty (rule_subject r) \<and>
     \<not> trim_is_empty (rule_action r) \<and> \<not> trim_is_empty (rule_object r) \<and>
     rule_decision r \<in> {''allow'', ''deny'', ''audit''} \<and>
     (rule_action r = ''*'' \<or> (\<exists>a\<in>set all_actions. action_str a = rule_action r)))"
  by (induction rs arbitrary: i) (auto simp: bind_res_Inr_iff validate_action_label_def)

section \<open>Properties\<close>


definition demo_rule_of :: "string \<Rightarrow> Decision \<Rightarrow> Rule" where
  "demo_rule_of ob dec = \<lparr>pr_name = None, pr_description = None, pr_subject = ''*'', pr_action = ''read'',
     pr_object = ob, pr_decision = dec\<rparr>"

definition demo_doc :: "Decision \<Rightarrow> Rule list \<Rightarrow> PolicyDocument" where
  "demo_doc dflt rs = \<lparr>version = 1, doc_description = None, doc_enforcing = True, doc_default = dflt,
     doc_rules = rs\<rparr>"


text \<open>C34: The unreachable-rule lint is sound for what \<open>explain\<close> reports: a rule it flags is never
  the matched rule of an explanation.\<close>

theorem flagged_rule_never_explains:
  assumes "i < length (doc_rules d)" and "shadow_lint d i \<noteq> []"
  shows "matched_rule (explain d subject action ob) \<noteq> Some i"
proof -
  from assms obtain j where j: "j < i" "rule_selector_covers (doc_rules d ! j) (doc_rules d ! i)"
    by (auto simp: shadowed_iff)
  have "position (authored_hit (subject, action, ob, ob)) (doc_rules d) \<noteq> Some i"
    using j rule_covers_sound [OF j(2)] by (auto simp: position_Some_iff)
  with assms(1) show ?thesis
    by (auto simp: explain_def to_engine_index position_compile split: prod.split option.splits if_splits
        dest: arg_cong [where f = snd])
qed

theorem flagged_rule_never_explains_witness:
  "matched_rule (explain (demo_doc Decision.Deny [demo_rule_of ''*'' Decision.Deny, demo_rule_of ''a'' Decision.Allow])
     ''x'' ''read'' ''a'') \<noteq> Some 1"
  by (rule flagged_rule_never_explains)
     (simp_all add: demo_doc_def demo_rule_of_def shadow_lint_def rule_selector_covers_def selector_covers_def
       object_selector_covers_def)


text \<open>With a default other than deny, \<open>explain\<close> never says that the default decided: when no
  authored rule matches it reports a rule index one past the authored rules.\<close>

theorem explain_hides_default:
  assumes "doc_default d \<noteq> Decision.Deny" and "\<forall>r\<in>set (doc_rules d). \<not> authored_hit (subject, action, ob, ob) r"
  shows "\<not> used_default (explain d subject action ob) \<and>
    matched_rule (explain d subject action ob) = Some (length (doc_rules d)) \<and>
    matched_name (explain d subject action ob) = None"
proof -
  have "snd (evaluate (to_engine d) subject action ob ob) = Some (length (doc_rules d))"
    using assms position_None_iff [of "authored_hit (subject, action, ob, ob)" "doc_rules d"]
    by (simp add: to_engine_index position_compile)
  then show ?thesis
    by (cases "evaluate (to_engine d) subject action ob ob") (simp add: explain_def)
qed

theorem explain_hides_default_witness:
  "\<not> used_default (explain (demo_doc Decision.Allow []) ''x'' ''read'' ''a'')"
  using explain_hides_default [of "demo_doc Decision.Allow []" "''x''" "''read''" "''a''"]
  by (simp add: demo_doc_def)

text \<open>A document that passes validation compiles to rules that pass the checks of inline
  rules: no blank selector, only known action labels and only known decisions.\<close>

theorem valid_document_compiles_valid:
  assumes "validate d = Inr ()"
  shows "validate_engine_rules (compile d) = Inr ()"
proof -
  have dec: "as_engine_str x \<noteq> ''allow'' \<Longrightarrow> as_engine_str x \<noteq> ''audit'' \<Longrightarrow> as_engine_str x = ''deny''" for x
    by (cases x) simp_all
  from assms show ?thesis
    by (auto simp: validate_def validate_engine_rules_def validate_engine_rules_Inr validate_rules_Inr
        compile_def lower_rule_def not_blank split: if_splits intro: dec)
qed

theorem valid_document_compiles_valid_witness:
  "validate_engine_rules (compile (demo_doc Decision.Audit [demo_rule_of ''f*'' Decision.Deny])) = Inr ()"
  by (rule valid_document_compiles_valid)
     (simp add: validate_def demo_doc_def demo_rule_of_def not_blank validate_action_label_def all_actions_def)

end
