(* ===== verification/Namespaces.thy ===== *)
theory Namespaces
  imports Prelude
begin

text \<open>
  Agent namespaces (\<open>crates/kernel/src/namespaces.rs\<close>): the registry of isolated views and
  the visibility of one agent to another that interprocess communication and tool access
  are checked against. The static counter of identifiers is a component of the registry.
\<close>

section \<open>The registry\<close>

datatype NamespaceType = ToolNs | ContextNs | AgentNs | NetworkNs | UserNs | MountNs

type_synonym namespace_id = u64

record Namespace =
  ns_id :: namespace_id
  ns_type :: NamespaceType
  ns_parent :: "namespace_id option"
  ns_members :: "agent_id list"

record NamespaceRegistry =
  namespaces :: "(namespace_id \<times> Namespace) list"
  ns_defaults :: "(NamespaceType \<times> namespace_id) list"
  next_ns_id :: namespace_id







definition same_namespace :: "NamespaceRegistry \<Rightarrow> agent_id \<Rightarrow> agent_id \<Rightarrow> NamespaceType \<Rightarrow> bool" where
  "same_namespace r a b ty =
     list_ex (\<lambda>(_, ns). ns_type ns = ty \<and> a \<in> set (ns_members ns) \<and> b \<in> set (ns_members ns)) (namespaces r)"

definition can_see :: "NamespaceRegistry \<Rightarrow> agent_id \<Rightarrow> agent_id \<Rightarrow> bool" where
  "can_see r viewer target = same_namespace r viewer target AgentNs"

definition default_ns :: "NamespaceRegistry \<Rightarrow> NamespaceType \<Rightarrow> namespace_id option" where
  "default_ns r ty = map_of (ns_defaults r) ty"

definition ns_member_list :: "NamespaceRegistry \<Rightarrow> namespace_id \<Rightarrow> agent_id list" where
  "ns_member_list r i = (case map_of (namespaces r) i of Some ns \<Rightarrow> ns_members ns | None \<Rightarrow> [])"

definition ns_get :: "NamespaceRegistry \<Rightarrow> namespace_id \<Rightarrow> Namespace option" where
  "ns_get r i = map_of (namespaces r) i"

definition ns_count :: "NamespaceRegistry \<Rightarrow> nat" where
  "ns_count r = length (namespaces r)"

definition check_tool_access :: "NamespaceRegistry \<Rightarrow> agent_id \<Rightarrow> namespace_id \<Rightarrow> bool" where
  "check_tool_access r a tool_ns =
     (case map_of (namespaces r) tool_ns of Some ns \<Rightarrow> a \<in> set (ns_members ns) | None \<Rightarrow> False)"

definition check_ipc_access :: "NamespaceRegistry \<Rightarrow> agent_id \<Rightarrow> agent_id \<Rightarrow> bool" where
  "check_ipc_access r sender receiver = can_see r sender receiver"

section \<open>Reachable registries\<close>












section \<open>Properties\<close>





end
