(* ===== verification/Cgroups.thy ===== *)
theory Cgroups
  imports Prelude
begin

text \<open>
  Control groups (\<open>crates/kernel/src/cgroups.rs\<close>): the hierarchy of groups with their limits,
  membership of agents, and the reservations of concurrent tool calls, which are counted in a
  group and in all its ancestors. The tree lock makes every operation one step. The static
  counter of group identifiers is a component of the manager. A generation, the shared flag
  that makes the guards of a killed agent inert, is its allocation number; the flags that
  were cleared are the list \<open>revoked\<close>. A poisoned lock is not modelled.
\<close>

section \<open>State\<close>

type_synonym cgroup_id = u64
type_synonym generation = nat

record CgroupLimits =
  tokens_per_min :: u64
  max_concurrent_tool_calls :: u32
  max_context_tokens :: u64
  max_agents :: u32

record CgroupUsage =
  tokens_this_min :: u64
  active_tool_calls :: u32
  context_tokens :: u64
  agent_count :: u32

record Cgroup =
  cg_id :: cgroup_id
  cg_name :: string
  cg_parent :: "cgroup_id option"
  cg_children :: "cgroup_id list"
  cg_limits :: CgroupLimits
  cg_usage :: CgroupUsage
  cg_members :: "agent_id list"
  quota_scope :: string

datatype CgroupError =
    GroupNotFound cgroup_id
  | InvalidScope string string
  | DuplicateScope string
  | HierarchyCycle cgroup_id
  | DuplicateHierarchyScope string
  | HierarchyDoesNotReachRoot cgroup_id
  | RootRemoval
  | GroupNotEmpty cgroup_id
  | ParentChildMismatch cgroup_id cgroup_id
  | ScopeIndexMismatch cgroup_id string
  | AgentAlreadyMember cgroup_id agent_id
  | AgentNotMember cgroup_id agent_id
  | MaxAgentsReached cgroup_id
  | ToolCallLimit cgroup_id string
  | ActiveToolReservations cgroup_id
  | LimitBelowUsage cgroup_id string u64 u64

record CgroupManager =
  groups :: "(cgroup_id \<times> Cgroup) list"
  scope_index :: "(string \<times> cgroup_id) list"
  active_tool_calls_by_agent :: "(agent_id \<times> u32) list"
  tool_call_generations :: "(agent_id \<times> generation) list"
  root_id :: cgroup_id
  next_cgroup_id :: cgroup_id
  next_generation :: generation
  revoked :: "generation list"

record ToolCallGuard =
  guard_cgroups :: "cgroup_id list"
  agent_reservation :: "(agent_id \<times> generation) option"

definition limits_default :: CgroupLimits where
  "limits_default = \<lparr>tokens_per_min = 0, max_concurrent_tool_calls = 0, max_context_tokens = 0, max_agents = 0\<rparr>"

definition usage_default :: CgroupUsage where
  "usage_default = \<lparr>tokens_this_min = 0, active_tool_calls = 0, context_tokens = 0, agent_count = 0\<rparr>"

definition manager_new :: "cgroup_id \<Rightarrow> CgroupManager" where
  "manager_new first = \<lparr>groups = [(first, \<lparr>cg_id = first, cg_name = ''/'', cg_parent = None, cg_children = [],
       cg_limits = limits_default, cg_usage = usage_default, cg_members = [], quota_scope = ''/''\<rparr>)],
     scope_index = [(''/'', first)], active_tool_calls_by_agent = [], tool_call_generations = [],
     root_id = first, next_cgroup_id = first + 1, next_generation = 0, revoked = []\<rparr>"

definition upd_group :: "cgroup_id \<Rightarrow> (Cgroup \<Rightarrow> Cgroup) \<Rightarrow> CgroupManager \<Rightarrow> CgroupManager" where
  "upd_group i f m = m\<lparr>groups := AList.map_entry i f (groups m)\<rparr>"

section \<open>Scopes\<close>

definition validate_scope :: "string \<Rightarrow> CgroupError + unit" where
  "validate_scope scope =
     (if scope = [] then Inl (InvalidScope scope ''scope must not be empty'')
      else if length scope > 1024 then Inl (InvalidScope scope ''scope must not exceed 1024 bytes'')
      else if CHR 0x00 \<in> set scope then Inl (InvalidScope scope ''scope must not contain NUL'')
      else if hd scope \<noteq> CHR ''/'' then
        Inl (InvalidScope scope (''scope must start with '' @ [CHR 0x27, CHR ''/'', CHR 0x27]))
      else Inr ())"

definition replace_char :: "char \<Rightarrow> string \<Rightarrow> string \<Rightarrow> string" where
  "replace_char c by s = concat (map (\<lambda>x. if x = c then by else [x]) s)"

definition escape_scope_segment :: "string \<Rightarrow> CgroupError + string" where
  "escape_scope_segment name =
     (if name = [] then Inl (InvalidScope name ''derived scope segment must not be empty'')
      else Inr (replace_char (CHR ''/'') ''~1'' (replace_char (CHR ''~'') ''~0'' name)))"

definition derive_scope :: "string \<Rightarrow> string \<Rightarrow> CgroupError + string" where
  "derive_scope parent_scope name = bind_res (escape_scope_segment name) (\<lambda>segment.
     Inr (if parent_scope = ''/'' then ''/'' @ segment else parent_scope @ ''/'' @ segment))"

section \<open>The hierarchy\<close>

text \<open>Walks from a group to the root; the accumulated list ends up with the root first.\<close>

function climb ::
    "CgroupManager \<Rightarrow> cgroup_id list \<Rightarrow> string list \<Rightarrow> Cgroup list \<Rightarrow> cgroup_id option \<Rightarrow> CgroupError + Cgroup list" where
  "climb m group_ids scope_ids root_to_leaf None = Inr root_to_leaf"
| "climb m group_ids scope_ids root_to_leaf (Some i) =
     (if i \<in> set group_ids then Inl (HierarchyCycle i)
      else case map_of (groups m) i of
        None \<Rightarrow> Inl (GroupNotFound i)
      | Some g \<Rightarrow> bind_res (validate_scope (quota_scope g)) (\<lambda>_.
          if quota_scope g \<in> set scope_ids then Inl (DuplicateHierarchyScope (quota_scope g))
          else climb m (i # group_ids) (quota_scope g # scope_ids) (g # root_to_leaf) (cg_parent g)))"
  by pat_completeness auto
termination
proof (relation "measure (\<lambda>(m, ids, _, _, _). card (keys_of (groups m) - set ids))", simp)
  fix m :: CgroupManager and ids :: "cgroup_id list" and scopes i acc g x
  assume i: "i \<notin> set ids" and g: "map_of (groups m) i = Some g"
  from g have "i \<in> keys_of (groups m)" by (force dest: map_of_SomeD)
  with i have "card (keys_of (groups m) - set (i # ids)) < card (keys_of (groups m) - set ids)"
    by (intro psubset_card_mono) auto
  then show "((m, i # ids, quota_scope g # scopes, g # acc, cg_parent g), m, ids, scopes, acc, Some i)
      \<in> measure (\<lambda>(m, ids, _, _, _). card (keys_of (groups m) - set ids))" by simp
qed

definition hierarchy_unlocked :: "CgroupManager \<Rightarrow> cgroup_id \<Rightarrow> CgroupError + Cgroup list" where
  "hierarchy_unlocked m i = bind_res (climb m [] [] [] (Some i)) (\<lambda>path.
     if (case path of [] \<Rightarrow> None | g # _ \<Rightarrow> Some (cg_id g)) \<noteq> Some (root_id m)
     then Inl (HierarchyDoesNotReachRoot i) else Inr path)"

definition create_scoped ::
    "CgroupManager \<Rightarrow> string \<Rightarrow> cgroup_id \<Rightarrow> string \<Rightarrow> CgroupLimits \<Rightarrow> (CgroupError + cgroup_id) \<times> CgroupManager" where
  "create_scoped m name parent scope limits =
     (case bind_res (validate_scope scope) (\<lambda>_. hierarchy_unlocked m parent) of
        Inl e \<Rightarrow> (Inl e, m)
      | Inr _ \<Rightarrow>
          let i = next_cgroup_id m; m1 = m\<lparr>next_cgroup_id := i + 1\<rparr> in
          case map_of (scope_index m1) scope of
            Some _ \<Rightarrow> (Inl (DuplicateScope scope), m1)
          | None \<Rightarrow>
              let m2 = m1\<lparr>scope_index := AList.update scope i (scope_index m1),
                     groups := AList.update i \<lparr>cg_id = i, cg_name = name, cg_parent = Some parent,
                       cg_children = [], cg_limits = limits, cg_usage = usage_default, cg_members = [],
                       quota_scope = scope\<rparr> (groups m1)\<rparr> in
              case map_of (groups m2) parent of
                None \<Rightarrow> (Inl (GroupNotFound parent), m2\<lparr>groups := AList.delete i (groups m2),
                           scope_index := AList.delete scope (scope_index m2)\<rparr>)
              | Some _ \<Rightarrow> (Inr i, upd_group parent (\<lambda>g. g\<lparr>cg_children := cg_children g @ [i]\<rparr>) m2))"

definition try_create ::
    "CgroupManager \<Rightarrow> string \<Rightarrow> cgroup_id \<Rightarrow> CgroupLimits \<Rightarrow> (CgroupError + cgroup_id) \<times> CgroupManager" where
  "try_create m name parent limits =
     (case bind_res (ok_or (map_of (groups m) parent) (GroupNotFound parent)) (\<lambda>g. derive_scope (quota_scope g) name) of
        Inl e \<Rightarrow> (Inl e, m)
      | Inr scope \<Rightarrow> create_scoped m name parent scope limits)"

text \<open>\<open>create\<close> panics where \<open>try_create\<close> fails.\<close>

definition cgroup_create ::
    "CgroupManager \<Rightarrow> string \<Rightarrow> cgroup_id \<Rightarrow> CgroupLimits \<Rightarrow> (unit failure + cgroup_id) \<times> CgroupManager" where
  "cgroup_create m name parent limits =
     (case try_create m name parent limits of (Inl _, m') \<Rightarrow> (Inl Panic, m') | (Inr i, m') \<Rightarrow> (Inr i, m'))"

definition quota_constraints_for_agent ::
    "CgroupManager \<Rightarrow> cgroup_id \<Rightarrow> agent_id \<Rightarrow> CgroupError + (string \<times> u64) list" where
  "quota_constraints_for_agent m i a = bind_res (hierarchy_unlocked m i) (\<lambda>gs.
     if gs = [] then Inl (HierarchyDoesNotReachRoot i)
     else if a \<notin> set (cg_members (last gs)) then Inl (AgentNotMember i a)
     else Inr (map (\<lambda>g. (quota_scope g, tokens_per_min (cg_limits g))) gs))"

section \<open>Membership\<close>

definition member_count :: "agent_id list \<Rightarrow> u32" where
  "member_count xs = (if int (length xs) \<le> 0xFFFFFFFF then word_of_int (int (length xs)) else 0xFFFFFFFF)"

definition set_members :: "agent_id list \<Rightarrow> Cgroup \<Rightarrow> Cgroup" where
  "set_members xs g = g\<lparr>cg_members := xs, cg_usage := (cg_usage g)\<lparr>agent_count := member_count xs\<rparr>\<rparr>"

definition has_active_agent_tool_calls :: "CgroupManager \<Rightarrow> agent_id \<Rightarrow> bool" where
  "has_active_agent_tool_calls m a =
     (case map_of (active_tool_calls_by_agent m) a of Some active \<Rightarrow> active > 0 | None \<Rightarrow> False)"

definition add_agent :: "CgroupManager \<Rightarrow> cgroup_id \<Rightarrow> agent_id \<Rightarrow> CgroupError + CgroupManager" where
  "add_agent m i a = bind_res (hierarchy_unlocked m i) (\<lambda>_.
     bind_res (ok_or (map_of (groups m) i) (GroupNotFound i)) (\<lambda>g.
       if a \<in> set (cg_members g) then Inl (AgentAlreadyMember i a)
       else if max_agents (cg_limits g) > 0 \<and> agent_count (cg_usage g) \<ge> max_agents (cg_limits g)
       then Inl (MaxAgentsReached i)
       else Inr (upd_group i (\<lambda>g. set_members (cg_members g @ [a]) g) m)))"

definition try_remove_agent :: "CgroupManager \<Rightarrow> cgroup_id \<Rightarrow> agent_id \<Rightarrow> CgroupError + CgroupManager" where
  "try_remove_agent m i a = bind_res (hierarchy_unlocked m i) (\<lambda>_.
     if has_active_agent_tool_calls m a then Inl (ActiveToolReservations i)
     else bind_res (ok_or (map_of (groups m) i) (GroupNotFound i)) (\<lambda>g.
       case position (\<lambda>x. x = a) (cg_members g) of
         None \<Rightarrow> Inl (AgentNotMember i a)
       | Some index \<Rightarrow> Inr ((upd_group i (\<lambda>g. set_members (swap_remove index (cg_members g)) g) m)
           \<lparr>tool_call_generations := AList.delete a (tool_call_generations m)\<rparr>)))"

definition remove_agent :: "CgroupManager \<Rightarrow> cgroup_id \<Rightarrow> agent_id \<Rightarrow> CgroupManager" where
  "remove_agent m i a = (case try_remove_agent m i a of Inl _ \<Rightarrow> m | Inr m' \<Rightarrow> m')"

definition sub_calls :: "u32 \<Rightarrow> Cgroup \<Rightarrow> Cgroup" where
  "sub_calls n g = g\<lparr>cg_usage := (cg_usage g)\<lparr>active_tool_calls := sat_sub (active_tool_calls (cg_usage g)) n\<rparr>\<rparr>"

definition add_call :: "Cgroup \<Rightarrow> Cgroup" where
  "add_call g = g\<lparr>cg_usage := (cg_usage g)\<lparr>active_tool_calls := sat_add (active_tool_calls (cg_usage g)) 1\<rparr>\<rparr>"

definition force_remove_agent ::
    "CgroupManager \<Rightarrow> cgroup_id \<Rightarrow> agent_id \<Rightarrow> (CgroupError + unit) \<times> CgroupManager" where
  "force_remove_agent m i a = (case hierarchy_unlocked m i of
     Inl e \<Rightarrow> (Inl e, m)
   | Inr hierarchy \<Rightarrow>
     if hierarchy = [] then (Inl (HierarchyDoesNotReachRoot i), m)
     else if a \<notin> set (cg_members (last hierarchy)) then (Inl (AgentNotMember i a), m)
     else
       let m1 = (case map_of (tool_call_generations m) a of
             Some gen \<Rightarrow> m\<lparr>tool_call_generations := AList.delete a (tool_call_generations m),
                          revoked := gen # revoked m\<rparr>
           | None \<Rightarrow> m);
           active = (case map_of (active_tool_calls_by_agent m1) a of Some n \<Rightarrow> n | None \<Rightarrow> 0);
           m2 = m1\<lparr>active_tool_calls_by_agent := AList.delete a (active_tool_calls_by_agent m1)\<rparr>;
           m3 = (if active > 0 then fold (\<lambda>i. upd_group i (sub_calls active)) (map cg_id hierarchy) m2 else m2) in
       case map_of (groups m3) i of
         None \<Rightarrow> (Inl (GroupNotFound i), m3)
       | Some g \<Rightarrow> (case position (\<lambda>x. x = a) (cg_members g) of
             None \<Rightarrow> (Inl (AgentNotMember i a), m3)
           | Some index \<Rightarrow> (Inr (), upd_group i (\<lambda>g. set_members (swap_remove index (cg_members g)) g) m3)))"

text \<open>The two \<open>expect\<close>s on validated entries are the \<open>Panic\<close> branches.\<close>

definition try_move_agent ::
    "CgroupManager \<Rightarrow> cgroup_id \<Rightarrow> cgroup_id \<Rightarrow> agent_id \<Rightarrow> CgroupError failure + CgroupManager" where
  "try_move_agent m source destination a =
     (case hierarchy_unlocked m source of Inl e \<Rightarrow> Inl (Err e) | Inr source_hierarchy \<Rightarrow>
      if source = destination then
        (if source_hierarchy = [] then Inl (Err (HierarchyDoesNotReachRoot source))
         else if a \<in> set (cg_members (last source_hierarchy)) then Inr m
         else Inl (Err (AgentNotMember source a)))
      else case hierarchy_unlocked m destination of Inl e \<Rightarrow> Inl (Err e) | Inr destination_hierarchy \<Rightarrow>
        if source_hierarchy = [] then Inl (Err (HierarchyDoesNotReachRoot source))
        else if a \<notin> set (cg_members (last source_hierarchy)) then Inl (Err (AgentNotMember source a))
        else if has_active_agent_tool_calls m a then Inl (Err (ActiveToolReservations source))
        else if destination_hierarchy = [] then Inl (Err (HierarchyDoesNotReachRoot destination))
        else let leaf = last destination_hierarchy in
          if a \<in> set (cg_members leaf) then Inl (Err (AgentAlreadyMember destination a))
          else if max_agents (cg_limits leaf) > 0 \<and> agent_count (cg_usage leaf) \<ge> max_agents (cg_limits leaf)
          then Inl (Err (MaxAgentsReached destination))
          else bind_res (expect (map_of (groups m) destination)) (\<lambda>_.
            let m1 = upd_group destination (\<lambda>g. set_members (cg_members g @ [a]) g) m in
            bind_res (expect (map_of (groups m1) source)) (\<lambda>g.
            bind_res (expect (position (\<lambda>x. x = a) (cg_members g))) (\<lambda>index.
              Inr (upd_group source (\<lambda>g. set_members (swap_remove index (cg_members g)) g) m1)))))"

definition try_remove_empty_leaf :: "CgroupManager \<Rightarrow> cgroup_id \<Rightarrow> CgroupError + CgroupManager" where
  "try_remove_empty_leaf m i =
     (if i = root_id m then Inl RootRemoval
      else bind_res (ok_or (map_of (groups m) i) (GroupNotFound i)) (\<lambda>g.
        if cg_children g \<noteq> [] \<or> cg_members g \<noteq> [] \<or> agent_count (cg_usage g) \<noteq> 0
           \<or> active_tool_calls (cg_usage g) \<noteq> 0 \<or> context_tokens (cg_usage g) \<noteq> 0
        then Inl (GroupNotEmpty i)
        else bind_res (ok_or (cg_parent g) (HierarchyDoesNotReachRoot i)) (\<lambda>p.
          bind_res (ok_or (map_of (groups m) p) (GroupNotFound p)) (\<lambda>pg.
            if count_list (cg_children pg) i \<noteq> 1 then Inl (ParentChildMismatch i p)
            else if map_of (scope_index m) (quota_scope g) \<noteq> Some i
            then Inl (ScopeIndexMismatch i (quota_scope g))
            else let m1 = upd_group p (\<lambda>g. g\<lparr>cg_children := filter (\<lambda>c. c \<noteq> i) (cg_children g)\<rparr>) m in
              Inr (m1\<lparr>scope_index := AList.delete (quota_scope g) (scope_index m1),
                      groups := AList.delete i (groups m1)\<rparr>)))))"

definition update_limits :: "CgroupManager \<Rightarrow> cgroup_id \<Rightarrow> CgroupLimits \<Rightarrow> CgroupError + CgroupManager" where
  "update_limits m i limits = bind_res (ok_or (map_of (groups m) i) (GroupNotFound i)) (\<lambda>g.
     let u = cg_usage g in
     if max_agents limits > 0 \<and> agent_count u > max_agents limits
     then Inl (LimitBelowUsage i ''agents'' (ucast (max_agents limits)) (ucast (agent_count u)))
     else if max_concurrent_tool_calls limits > 0 \<and> active_tool_calls u > max_concurrent_tool_calls limits
     then Inl (LimitBelowUsage i ''tool_calls'' (ucast (max_concurrent_tool_calls limits))
       (ucast (active_tool_calls u)))
     else if max_context_tokens limits > 0 \<and> context_tokens u > max_context_tokens limits
     then Inl (LimitBelowUsage i ''context_tokens'' (max_context_tokens limits) (context_tokens u))
     else Inr (upd_group i (\<lambda>g. g\<lparr>cg_limits := limits\<rparr>) m))"

section \<open>Tool-call reservations\<close>

definition rollback_tool_calls :: "CgroupManager \<Rightarrow> cgroup_id list \<Rightarrow> CgroupManager" where
  "rollback_tool_calls m ids = fold (\<lambda>i. upd_group i (sub_calls 1)) ids m"

fun acquire_slots ::
    "CgroupManager \<Rightarrow> Cgroup list \<Rightarrow> cgroup_id list \<Rightarrow> (CgroupError + cgroup_id list) \<times> CgroupManager" where
  "acquire_slots m [] acquired = (Inr acquired, m)"
| "acquire_slots m (snapshot # hierarchy) acquired =
     (case map_of (groups m) (cg_id snapshot) of
        None \<Rightarrow> (Inl (GroupNotFound (cg_id snapshot)), rollback_tool_calls m acquired)
      | Some g \<Rightarrow>
          if max_concurrent_tool_calls (cg_limits g) > 0
             \<and> active_tool_calls (cg_usage g) \<ge> max_concurrent_tool_calls (cg_limits g)
          then (Inl (ToolCallLimit (cg_id g) (quota_scope g)), rollback_tool_calls m acquired)
          else acquire_slots (upd_group (cg_id snapshot) add_call m) hierarchy (acquired @ [cg_id g]))"

definition reserve_agent :: "CgroupManager \<Rightarrow> agent_id \<Rightarrow> (agent_id \<times> generation) \<times> CgroupManager" where
  "reserve_agent m a =
     (let (gen, m1) = (case map_of (tool_call_generations m) a of
           Some gen \<Rightarrow> (gen, m)
         | None \<Rightarrow> (next_generation m, m\<lparr>tool_call_generations := AList.update a (next_generation m)
               (tool_call_generations m), next_generation := Suc (next_generation m)\<rparr>));
          active = (case map_of (active_tool_calls_by_agent m1) a of Some n \<Rightarrow> sat_add n 1 | None \<Rightarrow> 1)
      in ((a, gen), m1\<lparr>active_tool_calls_by_agent := AList.update a active (active_tool_calls_by_agent m1)\<rparr>))"

definition acquire_tool_call_for_hierarchy ::
    "CgroupManager \<Rightarrow> Cgroup list \<Rightarrow> agent_id option \<Rightarrow> (CgroupError + ToolCallGuard) \<times> CgroupManager" where
  "acquire_tool_call_for_hierarchy m hierarchy agent =
     (case acquire_slots m hierarchy [] of
        (Inl e, m1) \<Rightarrow> (Inl e, m1)
      | (Inr acquired, m1) \<Rightarrow> (case agent of
            None \<Rightarrow> (Inr \<lparr>guard_cgroups = acquired, agent_reservation = None\<rparr>, m1)
          | Some a \<Rightarrow> (case reserve_agent m1 a of (res, m2) \<Rightarrow>
                (Inr \<lparr>guard_cgroups = acquired, agent_reservation = Some res\<rparr>, m2))))"

definition acquire_tool_call_checked ::
    "CgroupManager \<Rightarrow> cgroup_id \<Rightarrow> (CgroupError + ToolCallGuard) \<times> CgroupManager" where
  "acquire_tool_call_checked m i = (case hierarchy_unlocked m i of
     Inl e \<Rightarrow> (Inl e, m) | Inr hierarchy \<Rightarrow> acquire_tool_call_for_hierarchy m hierarchy None)"

definition acquire_tool_call_for_agent ::
    "CgroupManager \<Rightarrow> cgroup_id \<Rightarrow> agent_id \<Rightarrow> (CgroupError + ToolCallGuard) \<times> CgroupManager" where
  "acquire_tool_call_for_agent m i a = (case hierarchy_unlocked m i of
     Inl e \<Rightarrow> (Inl e, m)
   | Inr hierarchy \<Rightarrow>
       if hierarchy = [] then (Inl (HierarchyDoesNotReachRoot i), m)
       else if a \<notin> set (cg_members (last hierarchy)) then (Inl (AgentNotMember i a), m)
       else acquire_tool_call_for_hierarchy m hierarchy (Some a))"

definition try_acquire_tool_call ::
    "CgroupManager \<Rightarrow> cgroup_id \<Rightarrow> ToolCallGuard option \<times> CgroupManager" where
  "try_acquire_tool_call m i =
     (case acquire_tool_call_checked m i of (Inl _, m') \<Rightarrow> (None, m') | (Inr guard, m') \<Rightarrow> (Some guard, m'))"

text \<open>Dropping a guard.\<close>

definition release_tool_call :: "CgroupManager \<Rightarrow> ToolCallGuard \<Rightarrow> CgroupManager" where
  "release_tool_call m guard =
     (case agent_reservation guard of
        None \<Rightarrow> rollback_tool_calls m (guard_cgroups guard)
      | Some (a, gen) \<Rightarrow>
          if gen \<in> set (revoked m) then m
          else let m1 = rollback_tool_calls m (guard_cgroups guard) in
            case map_of (active_tool_calls_by_agent m1) a of
              None \<Rightarrow> m1
            | Some active \<Rightarrow>
                let remaining = sat_sub active 1 in
                if remaining = 0
                then m1\<lparr>active_tool_calls_by_agent := AList.delete a (active_tool_calls_by_agent m1),
                        tool_call_generations := AList.delete a (tool_call_generations m1)\<rparr>
                else m1\<lparr>active_tool_calls_by_agent := AList.update a remaining (active_tool_calls_by_agent m1)\<rparr>)"

section \<open>Compatibility shims and queries\<close>

definition check_token_limit :: "CgroupManager \<Rightarrow> cgroup_id \<Rightarrow> u64 \<Rightarrow> bool" where
  "check_token_limit m i tokens = (case hierarchy_unlocked m i of
     Inl _ \<Rightarrow> False | Inr gs \<Rightarrow> \<forall>g\<in>set gs. tokens_per_min (cg_limits g) = 0)"

definition try_record_tokens :: "CgroupManager \<Rightarrow> cgroup_id \<Rightarrow> u64 \<Rightarrow> bool" where
  "try_record_tokens m i tokens = (case hierarchy_unlocked m i of
     Inl _ \<Rightarrow> False | Inr gs \<Rightarrow> \<forall>g\<in>set gs. tokens_per_min (cg_limits g) = 0)"

definition enforce_limits :: "CgroupManager \<Rightarrow> cgroup_id \<Rightarrow> u64 \<Rightarrow> string + unit" where
  "enforce_limits m i tokens = (if check_token_limit m i tokens then Inr ()
     else Inl ''cgroup hierarchy unavailable or requires durable provider admission'')"

definition cgroup_get :: "CgroupManager \<Rightarrow> cgroup_id \<Rightarrow> Cgroup option" where
  "cgroup_get m i = map_of (groups m) i"

definition with_clone_limits :: "CgroupManager \<Rightarrow> cgroup_id \<Rightarrow> CgroupLimits \<Rightarrow> (unit \<Rightarrow> 'a) \<Rightarrow> string + 'a" where
  "with_clone_limits m i expected commit =
     bind_res (ok_or (map_of (groups m) i) ''clone parent cgroup was removed'') (\<lambda>g.
       if cg_limits g \<noteq> expected then Inl ''clone parent cgroup limits changed during creation''
       else Inr (commit ()))"

section \<open>The tree\<close>

abbreviation grp :: "CgroupManager \<Rightarrow> cgroup_id \<Rightarrow> Cgroup option" where
  "grp m \<equiv> map_of (groups m)"

text \<open>What the structural operations see of a group.\<close>

type_synonym node = "cgroup_id \<times> cgroup_id option \<times> cgroup_id list \<times> string"

definition shape :: "Cgroup \<Rightarrow> node" where
  "shape g = (cg_id g, cg_parent g, cg_children g, quota_scope g)"

definition nodes :: "CgroupManager \<Rightarrow> cgroup_id \<Rightarrow> node option" where
  "nodes m i = map_option shape (grp m i)"

text \<open>
  The tree: a root without parent; every other node hangs off an older node that lists it;
  children lists are exact; scopes are valid and indexed one to one.
\<close>

definition tree :: "cgroup_id \<Rightarrow> cgroup_id \<Rightarrow> (cgroup_id \<Rightarrow> node option) \<Rightarrow> (string \<Rightarrow> cgroup_id option) \<Rightarrow> bool" where
  "tree root fresh T S \<longleftrightarrow>
     (\<exists>cs s. T root = Some (root, None, cs, s)) \<and>
     (\<forall>i j p cs s. T i = Some (j, p, cs, s) \<longrightarrow>
        j = i \<and> unat i < unat fresh \<and> validate_scope s = Inr () \<and> S s = Some i \<and> distinct cs \<and>
        (i \<noteq> root \<longrightarrow> (\<exists>q. p = Some q \<and> unat q < unat i \<and> (\<exists>qp qcs qs. T q = Some (q, qp, qcs, qs) \<and> i \<in> set qcs))) \<and>
        (\<forall>c\<in>set cs. \<exists>ccs csc. T c = Some (c, Some i, ccs, csc))) \<and>
     (\<forall>s i. S s = Some i \<longrightarrow> (\<exists>j p cs. T i = Some (j, p, cs, s)))"

definition tree_ok :: "CgroupManager \<Rightarrow> bool" where
  "tree_ok m \<longleftrightarrow> tree (root_id m) (next_cgroup_id m) (nodes m) (map_of (scope_index m))"

text \<open>The ancestors of a group, root first, by parent pointers alone.\<close>

definition par :: "CgroupManager \<Rightarrow> cgroup_id \<Rightarrow> cgroup_id option" where
  "par m i = Option.bind (grp m i) cg_parent"

inductive tpath :: "(cgroup_id \<Rightarrow> cgroup_id option) \<Rightarrow> cgroup_id \<Rightarrow> cgroup_id \<Rightarrow> cgroup_id list \<Rightarrow> bool"
  for P root where
  root: "tpath P root root [root]"
| step: "P i = Some p \<Longrightarrow> i \<noteq> root \<Longrightarrow> tpath P root p ps \<Longrightarrow> tpath P root i (ps @ [i])"

inductive_cases tpath_rootE: "tpath P root root ps"
inductive_cases tpath_stepE: "tpath P root i ps"

lemma tpath_unique: "tpath P root i ps \<Longrightarrow> tpath P root i qs \<Longrightarrow> ps = qs"
proof (induction arbitrary: qs rule: tpath.induct)
  case root
  then show ?case by (auto elim: tpath.cases)
next
  case (step i p ps)
  from step.prems step.hyps obtain q rs where "P i = Some q" "qs = rs @ [i]" "tpath P root q rs"
    by (auto elim: tpath.cases)
  with step show ?case by auto
qed

lemma tpath_cong:
  assumes "tpath P root i ps" and "\<forall>x\<in>set ps. P' x = P x"
  shows "tpath P' root i ps"
  using assms by (induction rule: tpath.induct) (auto intro: tpath.intros)

lemma tpath_last: "tpath P root i ps \<Longrightarrow> ps \<noteq> [] \<and> last ps = i \<and> hd ps = root"
proof (induction rule: tpath.induct)
  case (step i p ps)
  then show ?case by (cases ps) auto
qed simp

lemma tree_group:
  assumes "tree_ok m" and "grp m i = Some g"
  shows "cg_id g = i" and "unat i < unat (next_cgroup_id m)" and "validate_scope (quota_scope g) = Inr ()"
    and "map_of (scope_index m) (quota_scope g) = Some i" and "distinct (cg_children g)"
    and "i \<noteq> root_id m \<Longrightarrow> \<exists>q qg. cg_parent g = Some q \<and> unat q < unat i \<and> grp m q = Some qg \<and> i \<in> set (cg_children qg)"
    and "c \<in> set (cg_children g) \<Longrightarrow> \<exists>cg. grp m c = Some cg \<and> cg_parent cg = Some i"
proof -
  have T: "nodes m i = Some (cg_id g, cg_parent g, cg_children g, quota_scope g)"
    using assms(2) by (simp add: nodes_def shape_def)
  note t = assms(1) [unfolded tree_ok_def tree_def]
  from t T show "cg_id g = i" and "unat i < unat (next_cgroup_id m)" and "validate_scope (quota_scope g) = Inr ()"
    and "map_of (scope_index m) (quota_scope g) = Some i" and "distinct (cg_children g)" by blast+
  show "\<exists>q qg. cg_parent g = Some q \<and> unat q < unat i \<and> grp m q = Some qg \<and> i \<in> set (cg_children qg)"
    if "i \<noteq> root_id m"
  proof -
    from t T that obtain q qp qcs qs where "cg_parent g = Some q" "unat q < unat i"
      "nodes m q = Some (q, qp, qcs, qs)" "i \<in> set qcs" by blast
    then show ?thesis by (auto simp: nodes_def shape_def)
  qed
  show "\<exists>cg. grp m c = Some cg \<and> cg_parent cg = Some i" if "c \<in> set (cg_children g)"
  proof -
    from t T that obtain ccs csc where "nodes m c = Some (c, Some i, ccs, csc)" by blast
    then show ?thesis by (auto simp: nodes_def shape_def)
  qed
qed

lemma tree_root:
  assumes "tree_ok m" obtains g where "grp m (root_id m) = Some g" and "cg_parent g = None"
proof -
  from assms obtain cs s where "nodes m (root_id m) = Some (root_id m, None, cs, s)"
    unfolding tree_ok_def tree_def by blast
  with that show thesis by (auto simp: nodes_def shape_def)
qed

lemma tree_scope:
  assumes "tree_ok m" and "map_of (scope_index m) s = Some i"
  obtains g where "grp m i = Some g" and "quota_scope g = s"
  using assms unfolding tree_ok_def tree_def nodes_def shape_def by blast

lemma climb_path:
  assumes "tree_ok m" and "grp m i = Some g" and "\<forall>x\<in>set ids. unat i < unat x"
    and "\<forall>s\<in>set scopes. \<exists>x\<in>set ids. map_of (scope_index m) s = Some x"
  shows "\<exists>gs. climb m ids scopes acc (Some i) = Inr (gs @ g # acc) \<and>
    tpath (par m) (root_id m) i (map cg_id (gs @ [g])) \<and> (\<forall>h\<in>set (gs @ [g]). grp m (cg_id h) = Some h)"
  using assms(2-4)
proof (induction "unat i" arbitrary: i g ids scopes acc rule: less_induct)
  case less
  note g = tree_group [OF assms(1) less.prems(1)]
  have fresh: "i \<notin> set ids" using less.prems(2) by auto
  then have fresh': "quota_scope g \<notin> set scopes" using less.prems(3) g(4) by fastforce
  note fresh = fresh fresh'
  show ?case
  proof (cases "i = root_id m")
    case True
    with assms(1) less.prems(1) have "cg_parent g = None" by (auto elim: tree_root)
    with fresh g(1,3) less.prems(1) True show ?thesis
      by (intro exI [of _ "[]"]) (auto intro: tpath.root)
  next
    case False
    from g(6) [OF this] obtain q qg where q: "cg_parent g = Some q" "unat q < unat i" "grp m q = Some qg" by blast
    from less.hyps [OF q(2,3), of "i # ids" "quota_scope g # scopes" "g # acc"] q less.prems g(4)
    obtain gs where gs: "climb m (i # ids) (quota_scope g # scopes) (g # acc) (Some q) = Inr (gs @ qg # g # acc)"
      "tpath (par m) (root_id m) q (map cg_id (gs @ [qg]))" "\<forall>h\<in>set (gs @ [qg]). grp m (cg_id h) = Some h"
      by (auto intro: order.strict_trans)
    have "par m i = Some q" using q(1) less.prems(1) by (simp add: par_def)
    from tpath.step [OF this False gs(2)] gs fresh g(1,3) q(1) less.prems(1) show ?thesis
      by (intro exI [of _ "gs @ [qg]"]) auto
  qed
qed

lemma hierarchy_path:
  assumes "tree_ok m" and "grp m i = Some g"
  obtains gs where "hierarchy_unlocked m i = Inr gs" and "gs \<noteq> []" and "last gs = g"
    and "tpath (par m) (root_id m) i (map cg_id gs)" and "\<forall>h\<in>set gs. grp m (cg_id h) = Some h"
proof -
  from climb_path [OF assms, of "[]" "[]" "[]"] obtain gs where
    gs: "climb m [] [] [] (Some i) = Inr (gs @ [g])" "tpath (par m) (root_id m) i (map cg_id (gs @ [g]))"
      "\<forall>h\<in>set (gs @ [g]). grp m (cg_id h) = Some h" by auto
  from tpath_last [OF gs(2)] have "cg_id (hd (gs @ [g])) = root_id m" by (cases gs) auto
  then have "hierarchy_unlocked m i = Inr (gs @ [g])"
    unfolding hierarchy_unlocked_def gs(1) by (cases gs) auto
  with gs that [of "gs @ [g]"] show thesis by simp
qed

lemma hierarchy_missing: "grp m i = None \<Longrightarrow> hierarchy_unlocked m i = Inl (GroupNotFound i)"
  by (simp add: hierarchy_unlocked_def)

lemma tpath_ranked:
  assumes "tpath P root i ps" and "\<And>x y. P x = Some y \<Longrightarrow> unat y < unat x"
  shows "distinct ps \<and> (\<forall>x\<in>set ps. unat x \<le> unat i)"
  using assms(1)
proof (induction rule: tpath.induct)
  case (step i p ps)
  with assms(2) [of i p] show ?case by fastforce
qed simp

section \<open>Structural operations keep the tree\<close>

lemma treeI:
  assumes "T root = Some (root, None, rcs, rs)"
    and "\<And>i j p cs s. T i = Some (j, p, cs, s) \<Longrightarrow> j = i \<and> unat i < unat fresh \<and> validate_scope s = Inr () \<and>
      S s = Some i \<and> distinct cs"
    and "\<And>i j p cs s. T i = Some (j, p, cs, s) \<Longrightarrow> i \<noteq> root \<Longrightarrow>
      \<exists>q. p = Some q \<and> unat q < unat i \<and> (\<exists>qp qcs qs. T q = Some (q, qp, qcs, qs) \<and> i \<in> set qcs)"
    and "\<And>i j p cs s c. T i = Some (j, p, cs, s) \<Longrightarrow> c \<in> set cs \<Longrightarrow> \<exists>ccs csc. T c = Some (c, Some i, ccs, csc)"
    and "\<And>s i. S s = Some i \<Longrightarrow> \<exists>j p cs. T i = Some (j, p, cs, s)"
  shows "tree root fresh T S"
  unfolding tree_def using assms by blast

lemma treeD:
  assumes "tree root fresh T S"
  shows "\<exists>cs s. T root = Some (root, None, cs, s)"
    and "T i = Some (j, p, cs, s) \<Longrightarrow> j = i \<and> unat i < unat fresh \<and> validate_scope s = Inr () \<and> S s = Some i \<and> distinct cs"
    and "T i = Some (j, p, cs, s) \<Longrightarrow> i \<noteq> root \<Longrightarrow>
      \<exists>q. p = Some q \<and> unat q < unat i \<and> (\<exists>qp qcs qs. T q = Some (q, qp, qcs, qs) \<and> i \<in> set qcs)"
    and "T i = Some (j, p, cs, s) \<Longrightarrow> c \<in> set cs \<Longrightarrow> \<exists>ccs csc. T c = Some (c, Some i, ccs, csc)"
    and "S s = Some i \<Longrightarrow> \<exists>j p cs. T i = Some (j, p, cs, s)"
  using assms unfolding tree_def by blast+

lemma tree_insert:
  assumes t: "tree root i T S" and par: "T parent = Some (parent, pp, pcs, ps)" and S: "S scope = None"
    and ok: "validate_scope scope = Inr ()" and nowrap: "unat (i + 1) = Suc (unat i)"
  shows "tree root (i + 1) (T(i \<mapsto> (i, Some parent, [], scope), parent \<mapsto> (parent, pp, pcs @ [i], ps))) (S(scope \<mapsto> i))"
    (is "tree root (i + 1) ?T ?S")
proof -
  have new: "T i = None"
  proof (rule ccontr)
    assume "T i \<noteq> None"
    then obtain j p cs s where "T i = Some (j, p, cs, s)" by (cases "T i") auto
    from treeD(2) [OF t this] show False by simp
  qed
  then have ne: "i \<noteq> parent" "i \<noteq> root" using par treeD(1) [OF t] by auto
  have bound: "T x = Some (j, p, cs, s) \<Longrightarrow> unat x < unat i" for x j p cs s using treeD(2) [OF t] by blast
  have scope: "T x = Some (j, p, cs, s) \<Longrightarrow> s \<noteq> scope" for x j p cs s using treeD(2) [OF t] S by force
  have kids: "i \<notin> set pcs" using treeD(4) [OF t par] new by fastforce
  obtain rcs rs where root: "T root = Some (root, None, rcs, rs)" using treeD(1) [OF t] by blast
  obtain rcs' rs' where root': "?T root = Some (root, None, rcs', rs')"
    using root par ne by (cases "root = parent") auto
  show ?thesis
  proof (rule treeI [of ?T root rcs' rs'], rule root')
    fix x j p cs s
    assume x: "?T x = Some (j, p, cs, s)"
    show "j = x \<and> unat x < unat (i + 1) \<and> validate_scope s = Inr () \<and> ?S s = Some x \<and> distinct cs"
      using x par ne ok kids treeD(2) [OF t, of x] treeD(2) [OF t par] bound scope
      by (force simp: nowrap less_Suc_eq split: if_splits)
    show "\<exists>q. p = Some q \<and> unat q < unat x \<and> (\<exists>qp qcs qs. ?T q = Some (q, qp, qcs, qs) \<and> x \<in> set qcs)" if "x \<noteq> root"
    proof (cases "x = i")
      case True
      with x ne bound [OF par] show ?thesis by auto
    next
      case False
      then obtain cs' where "T x = Some (j, p, cs', s)"
        using x par treeD(2) [OF t par] by (cases "x = parent") auto
      from treeD(3) [OF t this that] obtain q qp qcs qs where
        "p = Some q" "unat q < unat x" "T q = Some (q, qp, qcs, qs)" "x \<in> set qcs" by blast
      moreover from this new have "q \<noteq> i" by auto
      ultimately show ?thesis using par by (cases "q = parent") auto
    qed
    fix c assume c: "c \<in> set cs"
    show "\<exists>ccs csc. ?T c = Some (c, Some x, ccs, csc)"
    proof (cases "c = i")
      case True
      have "x = parent"
      proof (rule ccontr)
        assume "x \<noteq> parent"
        with x c True ne have "T x = Some (j, p, cs, s)" by (auto split: if_splits)
        from treeD(4) [OF t this c] True new show False by auto
      qed
      with True ne show ?thesis by auto
    next
      case False
      then obtain cs' where "T x = Some (j, p, cs', s)" "c \<in> set cs'"
        using x c par treeD(2) [OF t par] by (cases "x = parent"; cases "x = i") auto
      from treeD(4) [OF t this] False par show ?thesis by (cases "c = parent") auto
    qed
  next
    fix s x assume "?S s = Some x"
    then show "\<exists>j p cs. ?T x = Some (j, p, cs, s)"
      using treeD(5) [OF t, of s x] new par ne by (auto split: if_splits)
  qed
qed

lemma tree_delete:
  assumes t: "tree root fresh T S" and i: "T i = Some (i, Some p, [], s)" "i \<noteq> root"
    and par: "T p = Some (p, pp, pcs, ps)"
  shows "tree root fresh (T(p \<mapsto> (p, pp, filter (\<lambda>c. c \<noteq> i) pcs, ps), i := None)) (S(s := None))"
    (is "tree root fresh ?T ?S")
proof -
  have pi: "p \<noteq> i" using treeD(3) [OF t i] by auto
  obtain rcs rs where "T root = Some (root, None, rcs, rs)" using treeD(1) [OF t] by blast
  with par i obtain rcs' rs' where root': "?T root = Some (root, None, rcs', rs')" by (cases "root = p") auto
  have old: "\<exists>cs'. T x = Some (j, q, cs', sc) \<and> (cs = cs' \<and> x \<noteq> p \<or> x = p \<and> cs = filter (\<lambda>c. c \<noteq> i) cs') \<and> x \<noteq> i"
    if "?T x = Some (j, q, cs, sc)" for x j q cs sc
    using that par by (auto split: if_splits)
  have sc: "sc \<noteq> s" if "T x = Some (j, q, cs, sc)" "x \<noteq> i" for x j q cs sc
    using treeD(2) [OF t that(1)] treeD(2) [OF t i(1)] that(2) by auto
  show ?thesis
  proof (rule treeI [of ?T root rcs' rs'], rule root')
    fix x j q cs sc
    assume "?T x = Some (j, q, cs, sc)"
    then obtain cs' where x: "T x = Some (j, q, cs', sc)" "cs = cs' \<and> x \<noteq> p \<or> x = p \<and> cs = filter (\<lambda>c. c \<noteq> i) cs'" "x \<noteq> i"
      using old by blast
    show "j = x \<and> unat x < unat fresh \<and> validate_scope sc = Inr () \<and> ?S sc = Some x \<and> distinct cs"
      using treeD(2) [OF t x(1)] sc [OF x(1,3)] x(2) by auto
    show "\<exists>r. q = Some r \<and> unat r < unat x \<and> (\<exists>qp qcs qs. ?T r = Some (r, qp, qcs, qs) \<and> x \<in> set qcs)" if "x \<noteq> root"
    proof -
      from treeD(3) [OF t x(1) that] obtain r qp qcs qs where
        r: "q = Some r" "unat r < unat x" "T r = Some (r, qp, qcs, qs)" "x \<in> set qcs" by blast
      then have "r \<noteq> i" using i by auto
      with r x(3) par show ?thesis by (cases "r = p") auto
    qed
    fix c assume "c \<in> set cs"
    with x(2) have c: "c \<in> set cs'" by auto
    from treeD(4) [OF t x(1) this] obtain ccs csc where k: "T c = Some (c, Some x, ccs, csc)" by blast
    have "c \<noteq> i" using k i x \<open>c \<in> set cs\<close> by auto
    with k par show "\<exists>ccs csc. ?T c = Some (c, Some x, ccs, csc)" by (cases "c = p") auto
  next
    fix sc x assume "?S sc = Some x"
    then have "sc \<noteq> s" "S sc = Some x" by (auto split: if_splits)
    from treeD(5) [OF t this(2)] obtain j q cs where x: "T x = Some (j, q, cs, sc)" by blast
    with i \<open>sc \<noteq> s\<close> have "x \<noteq> i" by auto
    with x par show "\<exists>j p cs. ?T x = Some (j, p, cs, sc)" by (cases "x = p") auto
  qed
qed

lemma par_nodes: "par m i = Option.bind (nodes m i) (\<lambda>n. fst (snd n))"
  by (cases "grp m i") (simp_all add: par_def nodes_def shape_def)

lemma nodes_upd_group: "(\<And>g. shape (f g) = shape g) \<Longrightarrow> nodes (upd_group i f m) = nodes m"
  by (auto simp: fun_eq_iff nodes_def upd_group_def map_of_map_entry option.map_comp comp_def)

lemma upd_group_sel [simp]:
  "scope_index (upd_group i f m) = scope_index m" "root_id (upd_group i f m) = root_id m"
  "next_cgroup_id (upd_group i f m) = next_cgroup_id m"
  "active_tool_calls_by_agent (upd_group i f m) = active_tool_calls_by_agent m"
  "tool_call_generations (upd_group i f m) = tool_call_generations m"
  "next_generation (upd_group i f m) = next_generation m" "revoked (upd_group i f m) = revoked m"
  "grp (upd_group i f m) = (grp m)(i := map_option f (grp m i))"
  by (simp_all add: upd_group_def map_of_map_entry)

lemma shape_frames [simp]:
  "shape (set_members xs g) = shape g" "shape (sub_calls n g) = shape g" "shape (add_call g) = shape g"
  "shape (g\<lparr>cg_limits := l\<rparr>) = shape g"
  by (simp_all add: shape_def set_members_def sub_calls_def add_call_def)

lemma tree_ok_frame:
  "nodes m' = nodes m \<Longrightarrow> scope_index m' = scope_index m \<Longrightarrow> root_id m' = root_id m \<Longrightarrow>
   next_cgroup_id m' = next_cgroup_id m \<Longrightarrow> tree_ok m' \<longleftrightarrow> tree_ok m"
  by (simp add: tree_ok_def)

text \<open>What a successful creation does to the structure.\<close>

lemma create_scoped_cases:
  assumes "tree_ok m" and "create_scoped m name parent scope limits = (res, m')"
  obtains e where "res = Inl e" and "m' = m \<or> m' = m\<lparr>next_cgroup_id := next_cgroup_id m + 1\<rparr>"
  | i pg where "res = Inr i" and "i = next_cgroup_id m" and "grp m parent = Some pg" and "map_of (scope_index m) scope = None"
    and "validate_scope scope = Inr ()"
    and "m' = upd_group parent (\<lambda>g. g\<lparr>cg_children := cg_children g @ [i]\<rparr>)
      (m\<lparr>next_cgroup_id := i + 1, scope_index := AList.update scope i (scope_index m),
         groups := AList.update i \<lparr>cg_id = i, cg_name = name, cg_parent = Some parent,
           cg_children = [], cg_limits = limits, cg_usage = usage_default, cg_members = [],
           quota_scope = scope\<rparr> (groups m)\<rparr>)"
proof (cases "bind_res (validate_scope scope) (\<lambda>_. hierarchy_unlocked m parent)")
  case (Inl e)
  with assms(2) show thesis by (intro that(1)) (auto simp: create_scoped_def)
next
  case (Inr hs)
  then have valid: "validate_scope scope = Inr ()" and "hierarchy_unlocked m parent = Inr hs"
    by (auto simp: bind_res_Inr_iff)
  then obtain pg where pg: "grp m parent = Some pg"
    by (cases "grp m parent") (auto simp: hierarchy_missing)
  show thesis
  proof (cases "map_of (scope_index m) scope")
    case None
    with assms(2) Inr valid pg show thesis
      by (intro that(2)) (auto simp: create_scoped_def Let_def map_of_update split: if_splits)
  next
    case (Some j)
    with assms(2) Inr show thesis by (intro that(1)) (auto simp: create_scoped_def Let_def)
  qed
qed

lemma create_scoped_nodes:
  assumes "grp m parent = Some pg" and "i \<noteq> parent"
  shows "nodes (upd_group parent (\<lambda>g. g\<lparr>cg_children := cg_children g @ [i]\<rparr>)
      (m\<lparr>next_cgroup_id := n, scope_index := S, groups := AList.update i g (groups m)\<rparr>)) =
    (nodes m)(i \<mapsto> shape g, parent \<mapsto> (cg_id pg, cg_parent pg, cg_children pg @ [i], quota_scope pg))"
  using assms by (auto simp: fun_eq_iff nodes_def map_of_update shape_def)

lemma tree_fresh: "tree_ok m \<Longrightarrow> grp m (next_cgroup_id m) = None"
  using tree_group(2) [of m "next_cgroup_id m"] by (cases "grp m (next_cgroup_id m)") auto

lemma tree_later:
  assumes t: "tree root fresh T S" and le: "unat fresh \<le> unat fresh'"
  shows "tree root fresh' T S"
proof -
  obtain rcs rs where root: "T root = Some (root, None, rcs, rs)" using treeD(1) [OF t] by blast
  show ?thesis
  proof (rule treeI [of T root rcs rs], rule root)
    fix i j p cs s assume "T i = Some (j, p, cs, s)"
    from treeD(2) [OF t this] le
    show "j = i \<and> unat i < unat fresh' \<and> validate_scope s = Inr () \<and> S s = Some i \<and> distinct cs" by simp
  qed (use treeD(3,4,5) [OF t] in blast)+
qed

lemma create_scoped_tree:
  assumes t: "tree_ok m" and c: "create_scoped m name parent scope limits = (res, m')"
    and nowrap: "unat (next_cgroup_id m) < 2 ^ 64 - 1"
  shows "tree_ok m'"
  using t c
proof (cases rule: create_scoped_cases)
  case (1 e)
  have "unat (next_cgroup_id m + 1) = Suc (unat (next_cgroup_id m))"
    using nowrap by (subst unat_add_bounded) auto
  with t have "tree_ok (m\<lparr>next_cgroup_id := next_cgroup_id m + 1\<rparr>)"
    by (simp add: tree_ok_def nodes_def [abs_def] tree_later)
  with 1 t show ?thesis by auto
next
  case (2 i pg)
  have ne: "i \<noteq> parent" using tree_fresh [OF t] 2 by auto
  have "unat (i + 1) = Suc (unat i)" using nowrap 2(2) by (subst unat_add_bounded) auto
  with tree_insert [of "root_id m" i "nodes m" "map_of (scope_index m)" parent "cg_parent pg" "cg_children pg" "quota_scope pg" scope]
    t 2 tree_group(1) [OF t 2(3)]
  show ?thesis
    unfolding 2(6) tree_ok_def create_scoped_nodes [OF 2(3) ne]
    by (simp add: nodes_def shape_def map_of_update)
qed

lemma try_remove_empty_leaf_Inr:
  assumes "try_remove_empty_leaf m i = Inr m'"
  obtains g p pg where "i \<noteq> root_id m" and "grp m i = Some g" and "cg_children g = []" and "cg_members g = []"
    and "active_tool_calls (cg_usage g) = 0" and "cg_parent g = Some p" and "grp m p = Some pg"
    and "m' = (upd_group p (\<lambda>g. g\<lparr>cg_children := filter (\<lambda>c. c \<noteq> i) (cg_children g)\<rparr>) m)
      \<lparr>scope_index := AList.delete (quota_scope g) (scope_index m),
       groups := AList.delete i (AList.map_entry p (\<lambda>g. g\<lparr>cg_children := filter (\<lambda>c. c \<noteq> i) (cg_children g)\<rparr>) (groups m))\<rparr>"
  using assms by (auto simp: try_remove_empty_leaf_def Let_def res_simps upd_group_def split: if_splits)

lemma remove_leaf_nodes:
  assumes "grp m p = Some pg"
  shows "nodes (m\<lparr>scope_index := S, groups := AList.delete i (AList.map_entry p
        (\<lambda>g. g\<lparr>cg_children := filter (\<lambda>c. c \<noteq> i) (cg_children g)\<rparr>) (groups m))\<rparr>) =
    (nodes m)(p \<mapsto> (cg_id pg, cg_parent pg, filter (\<lambda>c. c \<noteq> i) (cg_children pg), quota_scope pg), i := None)"
  using assms by (auto simp: fun_eq_iff nodes_def map_of_delete map_of_map_entry shape_def)

lemma remove_leaf_tree:
  assumes t: "tree_ok m" and "try_remove_empty_leaf m i = Inr m'"
  shows "tree_ok m'"
  using assms(2)
proof (rule try_remove_empty_leaf_Inr)
  fix g p pg
  assume a: "i \<noteq> root_id m" "grp m i = Some g" "cg_children g = []" "cg_parent g = Some p" "grp m p = Some pg"
    "m' = (upd_group p (\<lambda>g. g\<lparr>cg_children := filter (\<lambda>c. c \<noteq> i) (cg_children g)\<rparr>) m)
      \<lparr>scope_index := AList.delete (quota_scope g) (scope_index m),
       groups := AList.delete i (AList.map_entry p (\<lambda>g. g\<lparr>cg_children := filter (\<lambda>c. c \<noteq> i) (cg_children g)\<rparr>) (groups m))\<rparr>"
  have n: "nodes m' = (nodes m)(p \<mapsto> (cg_id pg, cg_parent pg, filter (\<lambda>c. c \<noteq> i) (cg_children pg), quota_scope pg), i := None)"
    using remove_leaf_nodes [OF a(5)] a(6) by (simp add: upd_group_def)
  from tree_delete [of "root_id m" "next_cgroup_id m" "nodes m" "map_of (scope_index m)" i p "quota_scope g"
      "cg_parent pg" "cg_children pg" "quota_scope pg"] t [unfolded tree_ok_def] a(1-5) tree_group(1) [OF t a(2)] tree_group(1) [OF t a(5)]
  have "tree (root_id m) (next_cgroup_id m) (nodes m') ((map_of (scope_index m))(quota_scope g := None))"
    unfolding n by (simp add: nodes_def shape_def)
  moreover have "root_id m' = root_id m" "next_cgroup_id m' = next_cgroup_id m"
    "map_of (scope_index m') = (map_of (scope_index m))(quota_scope g := None)"
    by (simp_all add: a(6) map_of_delete)
  ultimately show ?thesis unfolding tree_ok_def by simp
qed

section \<open>Derived scopes\<close>

text \<open>Escaping writes every character as a code word of a prefix code without a slash.\<close>

definition code_word :: "char \<Rightarrow> string" where
  "code_word c = (if c = CHR ''~'' then ''~0'' else if c = CHR ''/'' then ''~1'' else [c])"

lemma replace_char_Cons: "replace_char c by (x # s) = (if x = c then by else [x]) @ replace_char c by s"
  by (simp add: replace_char_def)

lemma replace_char_append: "replace_char c by (s @ t) = replace_char c by s @ replace_char c by t"
  by (simp add: replace_char_def)

lemma escape_code: "replace_char (CHR ''/'') ''~1'' (replace_char (CHR ''~'') ''~0'' s) = concat (map code_word s)"
  by (induction s) (simp_all add: replace_char_Cons replace_char_append code_word_def, simp_all add: replace_char_def)

lemma code_word_inj: "concat (map code_word s) = concat (map code_word t) \<Longrightarrow> s = t"
proof (induction s arbitrary: t)
  case Nil
  then show ?case by (cases t) (auto simp: code_word_def split: if_splits)
next
  case (Cons x s)
  then show ?case by (cases t) (auto simp: code_word_def split: if_splits)
qed

lemma code_word_no_slash: "CHR ''/'' \<notin> set (concat (map code_word s))"
  by (induction s) (auto simp: code_word_def)

lemma last_slash_unique:
  assumes "p @ CHR ''/'' # s = q @ CHR ''/'' # t" and "CHR ''/'' \<notin> set s" and "CHR ''/'' \<notin> set t"
  shows "p = q \<and> s = t"
  using assms by (auto simp: append_eq_append_conv2 append_eq_Cons_conv Cons_eq_append_conv)

text \<open>C35: Derived scopes are unambiguous: from the scope derived for a child both the parent's
  scope and the child's name can be recovered, so two groups never share a derived scope by
  accident, whatever slashes and tildes their names contain.\<close>

theorem derived_scopes_unambiguous:
  assumes "derive_scope p n = Inr s" and "derive_scope q k = Inr s" and "p \<noteq> []" and "q \<noteq> []"
  shows "p = q \<and> n = k"
proof -
  define pre where "pre r = (if r = ''/'' then [] else r)" for r :: string
  have d: "s = pre r @ CHR ''/'' # concat (map code_word x)" if "derive_scope r x = Inr s" for r x
    using that by (auto simp: derive_scope_def escape_scope_segment_def escape_code pre_def split: if_splits)
  from d [OF assms(1)] d [OF assms(2)] have "pre p = pre q \<and> concat (map code_word n) = concat (map code_word k)"
    by (intro last_slash_unique) (simp_all add: code_word_no_slash del: set_concat)
  then have "pre p = pre q" and "n = k" using code_word_inj [of n k] by simp_all
  then show ?thesis using assms(3,4) by (simp add: pre_def split: if_splits)
qed

theorem derived_scopes_unambiguous_witness:
  "derive_scope ''/team'' ''a/b~'' = Inr ''/team/a~1b~0'' \<and> derive_scope ''/team/a'' ''b~'' \<noteq> Inr ''/team/a~1b~0''"
proof -
  have d: "derive_scope ''/team'' ''a/b~'' = Inr ''/team/a~1b~0''" by code_simp
  with derived_scopes_unambiguous [OF d, of "''/team/a''" "''b~''"] show ?thesis by auto
qed

end
