(* ===== verification/Cgroup_Calls.thy ===== *)
theory Cgroup_Calls
  imports Cgroups
begin

text \<open>
  Tool-call accounting of the control groups: the manager together with the guards that are
  alive, the steps any interleaving of its operations can take, and the invariant that every
  counter is exactly the number of live reservations, so that no limit is exceeded and
  nothing leaks.
\<close>

section \<open>The system\<close>

type_synonym calls = "CgroupManager \<times> ToolCallGuard list"

text \<open>
  One step is one operation. Identifiers do not wrap, fewer than \<open>2 ^ 32 - 1\<close> guards are alive
  at once, and, as the syscall gate ensures, an agent is added to one group only.
\<close>

inductive cstep :: "calls \<Rightarrow> calls \<Rightarrow> bool" where
  create: "unat (next_cgroup_id m) < 2 ^ 64 - 1 \<Longrightarrow> create_scoped m name parent scope limits = (res, m') \<Longrightarrow>
    cstep (m, gs) (m', gs)"
| add: "(\<And>j g. grp m j = Some g \<Longrightarrow> a \<notin> set (cg_members g)) \<Longrightarrow> add_agent m i a = Inr m' \<Longrightarrow>
    cstep (m, gs) (m', gs)"
| remove: "try_remove_agent m i a = Inr m' \<Longrightarrow> cstep (m, gs) (m', gs)"
| force: "force_remove_agent m i a = (res, m') \<Longrightarrow> cstep (m, gs) (m', gs)"
| move: "try_move_agent m i j a = Inr m' \<Longrightarrow> cstep (m, gs) (m', gs)"
| leaf: "try_remove_empty_leaf m i = Inr m' \<Longrightarrow> cstep (m, gs) (m', gs)"
| limits: "update_limits m i l = Inr m' \<Longrightarrow> cstep (m, gs) (m', gs)"
| acquire: "length gs < 2 ^ 32 - 1 \<Longrightarrow> acquire_tool_call_checked m i = (Inr gd, m') \<Longrightarrow>
    cstep (m, gs) (m', gd # gs)"
| acquire_fails: "length gs < 2 ^ 32 - 1 \<Longrightarrow> acquire_tool_call_checked m i = (Inl e, m') \<Longrightarrow> cstep (m, gs) (m', gs)"
| reserve: "length gs < 2 ^ 32 - 1 \<Longrightarrow> acquire_tool_call_for_agent m i a = (Inr gd, m') \<Longrightarrow>
    cstep (m, gs) (m', gd # gs)"
| reserve_fails: "length gs < 2 ^ 32 - 1 \<Longrightarrow> acquire_tool_call_for_agent m i a = (Inl e, m') \<Longrightarrow>
    cstep (m, gs) (m', gs)"
| drop: "cstep (m, xs @ gd # ys) (release_tool_call m gd, xs @ ys)"

inductive calls_reachable :: "calls \<Rightarrow> bool" where
  start: "unat first < 2 ^ 64 - 1 \<Longrightarrow> calls_reachable (manager_new first, [])"
| step: "calls_reachable s \<Longrightarrow> cstep s s' \<Longrightarrow> calls_reachable s'"

section \<open>The invariant\<close>

definition live :: "generation list \<Rightarrow> ToolCallGuard \<Rightarrow> bool" where
  "live rvk gd = (case agent_reservation gd of None \<Rightarrow> True | Some (_, gen) \<Rightarrow> gen \<notin> set rvk)"

definition covering :: "generation list \<Rightarrow> ToolCallGuard list \<Rightarrow> cgroup_id \<Rightarrow> nat" where
  "covering rvk gs i = length (filter (\<lambda>gd. live rvk gd \<and> i \<in> set (guard_cgroups gd)) gs)"

definition held_by :: "generation list \<Rightarrow> ToolCallGuard list \<Rightarrow> agent_id \<Rightarrow> nat" where
  "held_by rvk gs a = length (filter (\<lambda>gd. live rvk gd \<and> map_option fst (agent_reservation gd) = Some a) gs)"

text \<open>The views of the manager that the accounting depends on.\<close>

definition act :: "CgroupManager \<Rightarrow> cgroup_id \<Rightarrow> (u32 \<times> u32) option" where
  "act m i = map_option (\<lambda>g. (active_tool_calls (cg_usage g), max_concurrent_tool_calls (cg_limits g))) (grp m i)"

definition mem :: "CgroupManager \<Rightarrow> cgroup_id \<Rightarrow> agent_id list" where
  "mem m i = (case grp m i of None \<Rightarrow> [] | Some g \<Rightarrow> cg_members g)"

definition group_ok :: "Cgroup \<Rightarrow> bool" where
  "group_ok g \<longleftrightarrow> distinct (cg_members g) \<and> agent_count (cg_usage g) = member_count (cg_members g) \<and>
     (max_agents (cg_limits g) > 0 \<longrightarrow> agent_count (cg_usage g) \<le> max_agents (cg_limits g))"

definition members_ok :: "CgroupManager \<Rightarrow> bool" where
  "members_ok m \<longleftrightarrow> (\<forall>i g. grp m i = Some g \<longrightarrow> group_ok g) \<and>
     (\<forall>i j a. a \<in> set (mem m i) \<longrightarrow> a \<in> set (mem m j) \<longrightarrow> i = j)"

definition counters_ok :: "CgroupManager \<Rightarrow> ToolCallGuard list \<Rightarrow> bool" where
  "counters_ok m gs \<longleftrightarrow>
     (\<forall>i n l. act m i = Some (n, l) \<longrightarrow> unat n = covering (revoked m) gs i \<and> (l > 0 \<longrightarrow> n \<le> l)) \<and>
     (\<forall>a. (case map_of (active_tool_calls_by_agent m) a of None \<Rightarrow> 0 | Some n \<Rightarrow> unat n) = held_by (revoked m) gs a)"

definition guards_ok :: "CgroupManager \<Rightarrow> ToolCallGuard list \<Rightarrow> bool" where
  "guards_ok m gs \<longleftrightarrow> length gs < 2 ^ 32 \<and>
     (\<forall>gd\<in>set gs. live (revoked m) gd \<longrightarrow>
        (\<exists>i. tpath (par m) (root_id m) i (guard_cgroups gd) \<and>
           (\<forall>a gen. agent_reservation gd = Some (a, gen) \<longrightarrow>
              map_of (tool_call_generations m) a = Some gen \<and> a \<in> set (mem m i)))) \<and>
     (\<forall>gd\<in>set gs. \<forall>a gen. agent_reservation gd = Some (a, gen) \<longrightarrow> gen < next_generation m)"

definition generations_ok :: "CgroupManager \<Rightarrow> bool" where
  "generations_ok m \<longleftrightarrow> (\<forall>gen\<in>set (revoked m). gen < next_generation m) \<and>
     (\<forall>a gen. map_of (tool_call_generations m) a = Some gen \<longrightarrow> gen < next_generation m \<and> gen \<notin> set (revoked m) \<and>
        (\<forall>b. map_of (tool_call_generations m) b = Some gen \<longrightarrow> b = a))"

definition calls_ok :: "calls \<Rightarrow> bool" where
  "calls_ok s \<longleftrightarrow> (case s of (m, gs) \<Rightarrow>
     tree_ok m \<and> members_ok m \<and> counters_ok m gs \<and> guards_ok m gs \<and> generations_ok m)"

lemmas calls_defs = members_ok_def counters_ok_def guards_ok_def generations_ok_def

section \<open>Folding over a path\<close>

lemma fold_upd_sel [simp]:
  "scope_index (fold (\<lambda>i. upd_group i f) is m) = scope_index m"
  "root_id (fold (\<lambda>i. upd_group i f) is m) = root_id m"
  "next_cgroup_id (fold (\<lambda>i. upd_group i f) is m) = next_cgroup_id m"
  "active_tool_calls_by_agent (fold (\<lambda>i. upd_group i f) is m) = active_tool_calls_by_agent m"
  "tool_call_generations (fold (\<lambda>i. upd_group i f) is m) = tool_call_generations m"
  "next_generation (fold (\<lambda>i. upd_group i f) is m) = next_generation m"
  "revoked (fold (\<lambda>i. upd_group i f) is m) = revoked m"
  by (induction "is" arbitrary: m) simp_all

lemma fold_upd_grp:
  "distinct is \<Longrightarrow> grp (fold (\<lambda>i. upd_group i f) is m) k = (if k \<in> set is then map_option f (grp m k) else grp m k)"
  by (induction "is" arbitrary: m) auto

lemma fold_upd_nodes: "(\<And>g. shape (f g) = shape g) \<Longrightarrow> nodes (fold (\<lambda>i. upd_group i f) is m) = nodes m"
  by (induction "is" arbitrary: m) (simp_all add: nodes_upd_group)

lemma par_eq: "nodes m' = nodes m \<Longrightarrow> par m' = par m"
  by (simp add: fun_eq_iff par_nodes)

lemma act_views [simp]:
  "active_tool_calls (cg_usage (add_call g)) = sat_add (active_tool_calls (cg_usage g)) 1"
  "active_tool_calls (cg_usage (sub_calls n g)) = sat_sub (active_tool_calls (cg_usage g)) n"
  "cg_limits (add_call g) = cg_limits g" "cg_limits (sub_calls n g) = cg_limits g"
  "cg_members (add_call g) = cg_members g" "cg_members (sub_calls n g) = cg_members g"
  "agent_count (cg_usage (add_call g)) = agent_count (cg_usage g)"
  "agent_count (cg_usage (sub_calls n g)) = agent_count (cg_usage g)"
  "active_tool_calls (cg_usage (set_members xs g)) = active_tool_calls (cg_usage g)"
  "cg_limits (set_members xs g) = cg_limits g" "cg_members (set_members xs g) = xs"
  "agent_count (cg_usage (set_members xs g)) = member_count xs"
  by (simp_all add: add_call_def sub_calls_def set_members_def)

text \<open>Paths of a well-formed tree.\<close>

lemma par_ranked: "tree_ok m \<Longrightarrow> par m x = Some y \<Longrightarrow> unat y < unat x"
proof -
  assume t: "tree_ok m" and y: "par m x = Some y"
  then obtain g where g: "grp m x = Some g" "cg_parent g = Some y" by (auto simp: par_def Option.bind_eq_Some_conv)
  obtain rg where "grp m (root_id m) = Some rg" "cg_parent rg = None" using tree_root [OF t] .
  with g have "x \<noteq> root_id m" by auto
  from tree_group(6) [OF t g(1) this] g(2) show ?thesis by auto
qed

lemma path_distinct: "tree_ok m \<Longrightarrow> tpath (par m) (root_id m) i ps \<Longrightarrow> distinct ps"
  using tpath_ranked par_ranked by blast

lemma path_exists: "tree_ok m \<Longrightarrow> tpath (par m) (root_id m) i ps \<Longrightarrow> \<forall>x\<in>set ps. grp m x \<noteq> None"
proof (rotate_tac, induction rule: tpath.induct)
  case root
  then show ?case by (auto elim: tree_root)
next
  case (step i p ps)
  then show ?case by (cases "grp m i") (auto simp: par_def)
qed

lemma hierarchy_Inr:
  assumes "tree_ok m" and "hierarchy_unlocked m i = Inr hs"
  obtains g where "grp m i = Some g" and "hs \<noteq> []" and "last hs = g"
    and "tpath (par m) (root_id m) i (map cg_id hs)" and "\<forall>h\<in>set hs. grp m (cg_id h) = Some h"
    and "distinct (map cg_id hs)"
proof (cases "grp m i")
  case None
  with assms(2) show thesis by (simp add: hierarchy_missing)
next
  case (Some g)
  from hierarchy_path [OF assms(1) Some] obtain gs where "hierarchy_unlocked m i = Inr gs" "gs \<noteq> []" "last gs = g"
    "tpath (par m) (root_id m) i (map cg_id gs)" "\<forall>h\<in>set gs. grp m (cg_id h) = Some h" by blast
  with assms path_distinct [OF assms(1), of i "map cg_id gs"] Some that show thesis by auto
qed

section \<open>Taking and returning slots\<close>

definition slot_free :: "CgroupManager \<Rightarrow> cgroup_id \<Rightarrow> bool" where
  "slot_free m i = (case act m i of None \<Rightarrow> False | Some (n, l) \<Rightarrow> \<not> (l > 0 \<and> n \<ge> l))"

lemma acquire_slots_spec:
  assumes "distinct (map cg_id hs)" and "\<forall>k g. grp m k = Some g \<longrightarrow> cg_id g = k"
  shows "((\<forall>h\<in>set hs. slot_free m (cg_id h)) \<and> acquire_slots m hs acq =
      (Inr (acq @ map cg_id hs), fold (\<lambda>i. upd_group i add_call) (map cg_id hs) m)) \<or>
    (\<exists>e ps. acquire_slots m hs acq =
      (Inl e, rollback_tool_calls (fold (\<lambda>i. upd_group i add_call) ps m) (acq @ ps)) \<and>
      distinct ps \<and> set ps \<subseteq> cg_id ` set hs)"
  using assms
proof (induction hs arbitrary: m acq)
  case (Cons h hs)
  show ?case
  proof (cases "slot_free m (cg_id h)")
    case False
    then have "\<exists>e. acquire_slots m (h # hs) acq = (Inl e, rollback_tool_calls m acq)"
      by (auto simp: slot_free_def act_def split: option.splits)
    then show ?thesis by (intro disjI2) (auto intro!: exI [of _ "[]"])
  next
    case True
    let ?m = "upd_group (cg_id h) add_call m"
    from True obtain g where g: "grp m (cg_id h) = Some g" and
      rec: "acquire_slots m (h # hs) acq = acquire_slots ?m hs (acq @ [cg_id h])"
      using Cons.prems(2) by (auto simp: slot_free_def act_def split: option.splits)
    have ids: "\<forall>k g. grp ?m k = Some g \<longrightarrow> cg_id g = k"
      using Cons.prems(2) by (auto simp: add_call_def)
    have same: "slot_free ?m (cg_id k) = slot_free m (cg_id k)" if "k \<in> set hs" for k
    proof -
      have "cg_id k \<noteq> cg_id h" using that Cons.prems(1) by (metis distinct.simps(2) image_eqI list.simps(9) set_map)
      then show ?thesis by (simp add: slot_free_def act_def)
    qed
    from Cons.IH [of ?m "acq @ [cg_id h]", OF _ ids] Cons.prems(1)
    consider "\<forall>k\<in>set hs. slot_free ?m (cg_id k)" "acquire_slots ?m hs (acq @ [cg_id h]) =
        (Inr ((acq @ [cg_id h]) @ map cg_id hs), fold (\<lambda>i. upd_group i add_call) (map cg_id hs) ?m)"
      | e ps where "acquire_slots ?m hs (acq @ [cg_id h]) =
        (Inl e, rollback_tool_calls (fold (\<lambda>i. upd_group i add_call) ps ?m) ((acq @ [cg_id h]) @ ps))"
        "distinct ps" "set ps \<subseteq> cg_id ` set hs" by auto
    then show ?thesis
    proof cases
      case 1
      with True same rec show ?thesis by (intro disjI1) auto
    next
      case 2
      have "cg_id h \<notin> set ps" using 2(3) Cons.prems(1) by auto
      with 2 rec show ?thesis by (intro disjI2 exI [of _ e] exI [of _ "cg_id h # ps"]) auto
    qed
  qed
qed simp

text \<open>A failed acquisition puts every counter back.\<close>

lemma sub_add_call: "unat (active_tool_calls (cg_usage g)) < 2 ^ 32 - 1 \<Longrightarrow> sub_calls 1 (add_call g) = g"
proof -
  assume "unat (active_tool_calls (cg_usage g)) < 2 ^ 32 - 1"
  then have "sat_sub (sat_add (active_tool_calls (cg_usage g)) 1) 1 = active_tool_calls (cg_usage g)"
    by (intro word_unat_eq_iff [THEN iffD2]) (simp add: sat_simps)
  then show ?thesis by (simp add: sub_calls_def add_call_def)
qed

lemma rollback_restores:
  assumes "distinct ps" and "\<forall>i g. grp m i = Some g \<longrightarrow> unat (active_tool_calls (cg_usage g)) < 2 ^ 32 - 1"
  shows "grp (rollback_tool_calls (fold (\<lambda>i. upd_group i add_call) ps m) ps) = grp m"
proof
  fix k
  have "map_option (sub_calls 1) (map_option add_call (grp m k)) = grp m k"
    using assms(2) by (cases "grp m k") (simp_all add: sub_add_call)
  then show "grp (rollback_tool_calls (fold (\<lambda>i. upd_group i add_call) ps m) ps) k = grp m k"
    by (simp add: rollback_tool_calls_def fold_upd_grp [OF assms(1)])
qed

lemma covering_le: "covering rvk gs i \<le> length gs"
  by (simp add: covering_def)

lemma active_bound:
  assumes "counters_ok m gs" and "length gs < 2 ^ 32 - 1" and "grp m i = Some g"
  shows "unat (active_tool_calls (cg_usage g)) < 2 ^ 32 - 1"
proof -
  from assms(1,3) have "unat (active_tool_calls (cg_usage g)) = covering (revoked m) gs i"
    by (auto simp: counters_ok_def act_def)
  with covering_le [of "revoked m" gs i] assms(2) show ?thesis by simp
qed

section \<open>Counting guards\<close>

lemma covering_Cons: "covering rvk (gd # gs) i = covering rvk gs i + (if live rvk gd \<and> i \<in> set (guard_cgroups gd) then 1 else 0)"
  by (simp add: covering_def)

lemma covering_remove:
  "covering rvk (xs @ gd # ys) i = covering rvk (xs @ ys) i + (if live rvk gd \<and> i \<in> set (guard_cgroups gd) then 1 else 0)"
  by (simp add: covering_def)

lemma held_by_Cons:
  "held_by rvk (gd # gs) a = held_by rvk gs a + (if live rvk gd \<and> map_option fst (agent_reservation gd) = Some a then 1 else 0)"
  by (simp add: held_by_def)

lemma held_by_remove:
  "held_by rvk (xs @ gd # ys) a =
     held_by rvk (xs @ ys) a + (if live rvk gd \<and> map_option fst (agent_reservation gd) = Some a then 1 else 0)"
  by (simp add: held_by_def)

lemma covering_0_iff: "covering rvk gs i = 0 \<longleftrightarrow> (\<forall>gd\<in>set gs. live rvk gd \<longrightarrow> i \<notin> set (guard_cgroups gd))"
  by (auto simp: covering_def filter_empty_conv)

lemma held_by_0_iff:
  "held_by rvk gs a = 0 \<longleftrightarrow> (\<forall>gd\<in>set gs. live rvk gd \<longrightarrow> map_option fst (agent_reservation gd) \<noteq> Some a)"
  by (auto simp: held_by_def filter_empty_conv)

definition slots_ok :: "CgroupManager \<Rightarrow> generation list \<Rightarrow> ToolCallGuard list \<Rightarrow> bool" where
  "slots_ok m rvk gs \<longleftrightarrow> (\<forall>i n l. act m i = Some (n, l) \<longrightarrow> unat n = covering rvk gs i \<and> (l > 0 \<longrightarrow> n \<le> l))"

definition agents_ok :: "CgroupManager \<Rightarrow> generation list \<Rightarrow> ToolCallGuard list \<Rightarrow> bool" where
  "agents_ok m rvk gs \<longleftrightarrow>
     (\<forall>a. (case map_of (active_tool_calls_by_agent m) a of None \<Rightarrow> 0 | Some n \<Rightarrow> unat n) = held_by rvk gs a)"

lemma counters_split: "counters_ok m gs \<longleftrightarrow> slots_ok m (revoked m) gs \<and> agents_ok m (revoked m) gs"
  by (simp add: counters_ok_def slots_ok_def agents_ok_def)

lemma act_fold:
  "distinct is \<Longrightarrow> act (fold (\<lambda>i. upd_group i f) is m) k =
    (if k \<in> set is then map_option (\<lambda>g. (active_tool_calls (cg_usage (f g)), max_concurrent_tool_calls (cg_limits (f g)))) (grp m k)
     else act m k)"
  by (simp add: act_def fold_upd_grp option.map_comp comp_def)

lemma slots_push:
  assumes ok: "slots_ok m rvk gs" and len: "length gs < 2 ^ 32 - 1" and d: "distinct (guard_cgroups gd)"
    and free: "\<forall>i\<in>set (guard_cgroups gd). slot_free m i" and live: "live rvk gd"
  shows "slots_ok (fold (\<lambda>i. upd_group i add_call) (guard_cgroups gd) m) rvk (gd # gs)"
  unfolding slots_ok_def
proof (intro allI impI)
  fix i n l
  assume a: "act (fold (\<lambda>i. upd_group i add_call) (guard_cgroups gd) m) i = Some (n, l)"
  show "unat n = covering rvk (gd # gs) i \<and> (l > 0 \<longrightarrow> n \<le> l)"
  proof (cases "i \<in> set (guard_cgroups gd)")
    case True
    with a d obtain k where k: "act m i = Some (k, l)" "n = sat_add k 1"
      by (auto simp: act_def fold_upd_grp)
    with ok have c: "unat k = covering rvk gs i" by (auto simp: slots_ok_def)
    then have n: "unat n = Suc (unat k)" using covering_le [of rvk gs i] len k(2) by (simp add: sat_simps)
    have "l > 0 \<longrightarrow> k < l" using bspec [OF free True] k(1) by (auto simp: slot_free_def)
    with n c True live show ?thesis by (auto simp: covering_Cons word_le_nat_alt word_less_nat_alt)
  next
    case False
    with a d ok show ?thesis by (auto simp: act_fold slots_ok_def covering_Cons)
  qed
qed

lemma slots_pop:
  assumes ok: "slots_ok m rvk (xs @ gd # ys)" and d: "distinct (guard_cgroups gd)" and live: "live rvk gd"
  shows "slots_ok (rollback_tool_calls m (guard_cgroups gd)) rvk (xs @ ys)"
  unfolding slots_ok_def rollback_tool_calls_def
proof (intro allI impI)
  fix i n l
  assume a: "act (fold (\<lambda>i. upd_group i (sub_calls 1)) (guard_cgroups gd) m) i = Some (n, l)"
  show "unat n = covering rvk (xs @ ys) i \<and> (l > 0 \<longrightarrow> n \<le> l)"
  proof (cases "i \<in> set (guard_cgroups gd)")
    case True
    with a d obtain k where k: "act m i = Some (k, l)" "n = sat_sub k 1"
      by (auto simp: act_def fold_upd_grp)
    with ok have "unat k = covering rvk (xs @ gd # ys) i" "l > 0 \<longrightarrow> k \<le> l" by (auto simp: slots_ok_def)
    with True live k(2) show ?thesis by (auto simp: covering_remove sat_simps word_le_nat_alt)
  next
    case False
    with a d ok show ?thesis by (auto simp: act_fold slots_ok_def covering_remove)
  qed
qed

text \<open>Revoking the generation of an agent whose live guards all lie on one path.\<close>

lemma live_cases:
  "live rvk gd \<longleftrightarrow> (\<forall>a gen. agent_reservation gd = Some (a, gen) \<longrightarrow> gen \<notin> set rvk)"
  by (auto simp: live_def split: option.split)

lemma filter_split_length:
  "length (filter (\<lambda>x. A x \<and> C x) xs) =
    length (filter (\<lambda>x. A x \<and> \<not> B x \<and> C x) xs) + length (filter (\<lambda>x. A x \<and> B x \<and> C x) xs)"
  by (induction xs) auto

lemma revoke_counts:
  assumes "\<forall>gd\<in>set gs. live rvk gd \<longrightarrow> (\<forall>b. agent_reservation gd = Some (b, gen) \<longrightarrow> b = a) \<and>
    (\<forall>h. agent_reservation gd = Some (a, h) \<longrightarrow> h = gen \<and> set (guard_cgroups gd) = P)"
  shows "covering rvk gs i = covering (gen # rvk) gs i + (if i \<in> P then held_by rvk gs a else 0)"
    and "held_by (gen # rvk) gs b = (if b = a then 0 else held_by rvk gs b)"
proof -
  let ?A = "live rvk" and ?B = "\<lambda>gd. map_option fst (agent_reservation gd) = Some a"
  have live: "live (gen # rvk) gd \<longleftrightarrow> ?A gd \<and> \<not> ?B gd" if "gd \<in> set gs" for gd
  proof (cases "agent_reservation gd")
    case (Some r)
    with bspec [OF assms that] show ?thesis by (cases r) (auto simp: live_cases)
  qed (simp add: live_cases)
  have path: "i \<in> set (guard_cgroups gd) \<longleftrightarrow> i \<in> P" if "gd \<in> set gs" "?A gd" "?B gd" for gd i
    using bspec [OF assms that(1)] that by (cases "agent_reservation gd") auto
  have "covering (gen # rvk) gs i = length (filter (\<lambda>gd. ?A gd \<and> \<not> ?B gd \<and> i \<in> set (guard_cgroups gd)) gs)"
    unfolding covering_def by (rule arg_cong [where f = length], rule filter_cong) (auto simp: live)
  moreover have "filter (\<lambda>gd. ?A gd \<and> ?B gd \<and> i \<in> set (guard_cgroups gd)) gs = (if i \<in> P then filter (\<lambda>gd. ?A gd \<and> ?B gd) gs else [])"
    using path by (auto simp: filter_empty_conv intro!: filter_cong)
  ultimately show "covering rvk gs i = covering (gen # rvk) gs i + (if i \<in> P then held_by rvk gs a else 0)"
    unfolding covering_def held_by_def
    by (subst filter_split_length [of ?A "\<lambda>gd. i \<in> set (guard_cgroups gd)" gs ?B]) simp
  show "held_by (gen # rvk) gs b = (if b = a then 0 else held_by rvk gs b)"
    unfolding held_by_def using live by (auto simp: filter_empty_conv intro!: arg_cong [where f = length] filter_cong)
qed

lemma slots_revoke:
  assumes ok: "slots_ok m rvk gs" and d: "distinct ps"
    and c: "\<And>i. covering rvk gs i = covering rvk' gs i + (if i \<in> set ps then unat k else 0)"
  shows "slots_ok (fold (\<lambda>i. upd_group i (sub_calls k)) ps m) rvk' gs"
  unfolding slots_ok_def
proof (intro allI impI)
  fix i n l
  assume a: "act (fold (\<lambda>i. upd_group i (sub_calls k)) ps m) i = Some (n, l)"
  show "unat n = covering rvk' gs i \<and> (l > 0 \<longrightarrow> n \<le> l)"
  proof (cases "i \<in> set ps")
    case True
    with a d obtain j where j: "act m i = Some (j, l)" "n = sat_sub j k"
      by (auto simp: act_def fold_upd_grp)
    with ok have "unat j = covering rvk gs i" "l > 0 \<longrightarrow> j \<le> l" by (auto simp: slots_ok_def)
    with True c [of i] j(2) show ?thesis by (auto simp: sat_simps word_le_nat_alt)
  next
    case False
    with a d ok c [of i] show ?thesis by (auto simp: act_fold slots_ok_def)
  qed
qed

section \<open>Frames\<close>

lemma members_frame:
  assumes "members_ok m"
    and "\<And>i. map_option (\<lambda>g. (cg_members g, agent_count (cg_usage g), max_agents (cg_limits g))) (grp m' i) =
      map_option (\<lambda>g. (cg_members g, agent_count (cg_usage g), max_agents (cg_limits g))) (grp m i)"
  shows "members_ok m'" and "mem m' = mem m"
proof -
  show mem: "mem m' = mem m"
  proof
    fix i show "mem m' i = mem m i"
      using assms(2) [of i] by (cases "grp m i"; cases "grp m' i") (auto simp: mem_def)
  qed
  have "group_ok g" if g: "grp m' i = Some g" for i g
  proof -
    from assms(2) [of i] g obtain h where "grp m i = Some h" and "cg_members h = cg_members g"
      "agent_count (cg_usage h) = agent_count (cg_usage g)" "max_agents (cg_limits h) = max_agents (cg_limits g)"
      by (cases "grp m i") auto
    moreover from this assms(1) have "group_ok h" by (simp add: members_ok_def)
    ultimately show ?thesis unfolding group_ok_def by auto
  qed
  with assms(1) show "members_ok m'" unfolding members_ok_def mem by blast
qed

lemma guards_frame:
  assumes "guards_ok m gs" and "par m' = par m" and "root_id m' = root_id m" and "revoked m' = revoked m"
    and "tool_call_generations m' = tool_call_generations m" and "mem m' = mem m" and "next_generation m' = next_generation m"
  shows "guards_ok m' gs"
  using assms by (simp add: guards_ok_def)

lemma generations_frame:
  assumes "generations_ok m" and "revoked m' = revoked m"
    and "tool_call_generations m' = tool_call_generations m" and "next_generation m' = next_generation m"
  shows "generations_ok m'"
  using assms by (simp add: generations_ok_def)

lemma act_upd_group:
  "(\<And>g. active_tool_calls (cg_usage (f g)) = active_tool_calls (cg_usage g) \<and>
     max_concurrent_tool_calls (cg_limits (f g)) = max_concurrent_tool_calls (cg_limits g)) \<Longrightarrow> act (upd_group i f m) = act m"
  by (auto simp: fun_eq_iff act_def option.map_comp comp_def)

lemma guards_weaken:
  assumes ok: "guards_ok m gs" and same: "root_id m' = root_id m" "revoked m' = revoked m"
      "next_generation m' = next_generation m"
    and par: "\<And>gd i. gd \<in> set gs \<Longrightarrow> live (revoked m) gd \<Longrightarrow> tpath (par m) (root_id m) i (guard_cgroups gd) \<Longrightarrow>
      tpath (par m') (root_id m) i (guard_cgroups gd)"
    and keep: "\<And>b. held_by (revoked m) gs b > 0 \<Longrightarrow>
      map_of (tool_call_generations m') b = map_of (tool_call_generations m) b \<and> (\<forall>i. b \<in> set (mem m i) \<longrightarrow> b \<in> set (mem m' i))"
  shows "guards_ok m' gs"
  unfolding guards_ok_def same
proof (intro conjI ballI impI)
  show "length gs < 2 ^ 32" using ok by (simp add: guards_ok_def)
next
  fix gd assume gd: "gd \<in> set gs" "live (revoked m) gd"
  with ok obtain i where i: "tpath (par m) (root_id m) i (guard_cgroups gd)"
    and r: "\<And>a gen. agent_reservation gd = Some (a, gen) \<Longrightarrow> map_of (tool_call_generations m) a = Some gen \<and> a \<in> set (mem m i)"
    unfolding guards_ok_def by blast
  have "map_of (tool_call_generations m') a = Some gen \<and> a \<in> set (mem m' i)" if "agent_reservation gd = Some (a, gen)" for a gen
  proof -
    have "held_by (revoked m) gs a \<noteq> 0" using gd that by (auto simp: held_by_0_iff)
    with keep [of a] r [OF that] show ?thesis by auto
  qed
  with par [OF gd i] show "\<exists>i. tpath (par m') (root_id m) i (guard_cgroups gd) \<and>
      (\<forall>a gen. agent_reservation gd = Some (a, gen) \<longrightarrow> map_of (tool_call_generations m') a = Some gen \<and> a \<in> set (mem m' i))"
    by blast
next
  show "\<forall>a gen. agent_reservation gd = Some (a, gen) \<longrightarrow> gen < next_generation m" if "gd \<in> set gs" for gd
    using ok that by (simp add: guards_ok_def)
qed

lemma slots_frame: "slots_ok m rvk gs \<Longrightarrow> act m' = act m \<Longrightarrow> slots_ok m' rvk gs"
  by (simp add: slots_ok_def)

lemma agents_frame: "agents_ok m rvk gs \<Longrightarrow> active_tool_calls_by_agent m' = active_tool_calls_by_agent m \<Longrightarrow> agents_ok m' rvk gs"
  by (simp add: agents_ok_def)

lemma u32_bound: "unat (x :: u32) \<le> 4294967295"
proof -
  have "unat x < 2 ^ 32" by (rule order_less_le_trans [OF unsigned_less]) simp
  then show ?thesis by simp
qed

lemma unat_member_count: "unat (member_count xs) = min (length xs) (2 ^ 32 - 1)"
  by (simp add: member_count_def unat_of_nat take_bit_nat_eq_self min_def)

lemma mem_upd_group: "mem (upd_group i f m) = (mem m)(i := (case grp m i of None \<Rightarrow> [] | Some g \<Rightarrow> cg_members (f g)))"
  by (auto simp: fun_eq_iff mem_def split: option.split)

lemma group_ok_add:
  assumes "group_ok g" and "a \<notin> set (cg_members g)"
    and "\<not> (max_agents (cg_limits g) > 0 \<and> agent_count (cg_usage g) \<ge> max_agents (cg_limits g))"
  shows "group_ok (set_members (cg_members g @ [a]) g)"
proof -
  have "max_agents (cg_limits g) > 0 \<Longrightarrow> member_count (cg_members g @ [a]) \<le> max_agents (cg_limits g)"
    using assms u32_bound [of "max_agents (cg_limits g)"]
    by (auto simp: group_ok_def word_le_nat_alt word_less_nat_alt unat_member_count min_def split: if_splits)
  with assms(1,2) show ?thesis by (simp add: group_ok_def)
qed

lemma group_ok_remove:
  assumes ok: "group_ok g" and pos: "position (\<lambda>x. x = a) (cg_members g) = Some k"
  shows "group_ok (set_members (swap_remove k (cg_members g)) g)" and "set (swap_remove k (cg_members g)) = set (cg_members g) - {a}"
proof -
  from pos have k: "k < length (cg_members g)" "cg_members g ! k = a" by (auto simp: position_Some_iff)
  from ok have d: "distinct (cg_members g)" by (simp add: group_ok_def)
  note sr = distinct_swap_remove [OF d k(1)]
  then show "set (swap_remove k (cg_members g)) = set (cg_members g) - {a}" using k(2) by simp
  have "max_agents (cg_limits g) > 0 \<Longrightarrow> member_count (swap_remove k (cg_members g)) \<le> max_agents (cg_limits g)"
    using ok by (auto simp: group_ok_def word_le_nat_alt unat_member_count)
  with sr show "group_ok (set_members (swap_remove k (cg_members g)) g)" by (simp add: group_ok_def)
qed

lemma members_add:
  assumes ok: "members_ok m" and g: "grp m i = Some g" and new: "\<And>j h. grp m j = Some h \<Longrightarrow> a \<notin> set (cg_members h)"
    and room: "\<not> (max_agents (cg_limits g) > 0 \<and> agent_count (cg_usage g) \<ge> max_agents (cg_limits g))"
  shows "members_ok (upd_group i (\<lambda>g. set_members (cg_members g @ [a]) g) m)"
proof -
  have up: "group_ok (set_members (cg_members g @ [a]) g)"
    using ok g group_ok_add [OF _ new [OF g] room] by (simp add: members_ok_def)
  let ?m = "upd_group i (\<lambda>g. set_members (cg_members g @ [a]) g) m"
  have mem: "b \<in> set (mem ?m j) \<longleftrightarrow> b \<in> set (mem m j) \<or> b = a \<and> j = i" for b j
    using g by (auto simp: mem_upd_group mem_def)
  have new': "a \<notin> set (mem m j)" for j using new by (auto simp: mem_def split: option.split)
  show ?thesis unfolding members_ok_def
  proof (intro conjI allI impI)
    fix j h assume "grp ?m j = Some h"
    then show "group_ok h" using up ok g by (cases "j = i") (simp_all add: members_ok_def)
  next
    fix j k b assume "b \<in> set (mem ?m j)" and "b \<in> set (mem ?m k)"
    with ok new' show "j = k" unfolding mem members_ok_def by metis
  qed
qed

lemma members_remove:
  assumes ok: "members_ok m" and g: "grp m i = Some g" and pos: "position (\<lambda>x. x = a) (cg_members g) = Some k"
  shows "members_ok (upd_group i (\<lambda>g. set_members (swap_remove k (cg_members g)) g) m)"
    and "set (mem (upd_group i (\<lambda>g. set_members (swap_remove k (cg_members g)) g) m) j) =
      (if j = i then set (mem m i) - {a} else set (mem m j))"
proof -
  let ?m = "upd_group i (\<lambda>g. set_members (swap_remove k (cg_members g)) g) m"
  from ok g have "group_ok g" by (simp add: members_ok_def)
  note rm = group_ok_remove [OF this pos]
  show mem: "set (mem ?m j) = (if j = i then set (mem m i) - {a} else set (mem m j))" for j
    using g rm(2) by (auto simp: mem_upd_group mem_def)
  have "group_ok h" if "grp ?m j = Some h" for j h
    using that ok g rm(1) by (cases "j = i") (auto simp: members_ok_def)
  moreover have "b \<in> set (mem ?m j) \<Longrightarrow> b \<in> set (mem m j)" for b j using mem [of j] by (auto split: if_splits)
  ultimately show "members_ok ?m" using ok unfolding members_ok_def by blast
qed

section \<open>Every step keeps the invariant\<close>

lemma add_ok:
  assumes ok: "calls_ok (m, gs)" and new: "\<And>j g. grp m j = Some g \<Longrightarrow> a \<notin> set (cg_members g)" and r: "add_agent m i a = Inr m'"
  shows "calls_ok (m', gs)"
proof -
  from r obtain g where g: "grp m i = Some g"
    and room: "\<not> (max_agents (cg_limits g) > 0 \<and> agent_count (cg_usage g) \<ge> max_agents (cg_limits g))"
    and m': "m' = upd_group i (\<lambda>g. set_members (cg_members g @ [a]) g) m"
    by (auto simp: add_agent_def res_simps simp del: bind_res_simps)
  have n: "nodes m' = nodes m" unfolding m' by (rule nodes_upd_group) simp
  have a: "act m' = act m" unfolding m' by (rule act_upd_group) simp
  have "guards_ok m' gs"
  proof (rule guards_weaken)
    show "guards_ok m gs" using ok by (simp add: calls_ok_def)
  qed (auto simp: m' mem_upd_group par_eq [OF n, unfolded m'] mem_def g)
  then show ?thesis
    using ok members_add [OF _ g new room] slots_frame [of m _ gs m', OF _ a] agents_frame [of m _ gs m']
      generations_frame [of m m'] tree_ok_frame [of m' m, OF n]
    unfolding calls_ok_def counters_split by (simp add: m')
qed

lemma idle_agent:
  assumes "calls_ok (m, gs)" and "\<not> has_active_agent_tool_calls m a"
  shows "held_by (revoked m) gs a = 0"
proof -
  from assms(1) have "(case map_of (active_tool_calls_by_agent m) a of None \<Rightarrow> 0 | Some n \<Rightarrow> unat n) = held_by (revoked m) gs a"
    by (simp add: calls_ok_def counters_ok_def)
  with assms(2) show ?thesis
    by (auto simp: has_active_agent_tool_calls_def word_neq_0_conv [symmetric] split: option.splits)
qed

lemma remove_ok:
  assumes ok: "calls_ok (m, gs)" and r: "try_remove_agent m i a = Inr m'"
  shows "calls_ok (m', gs)"
proof -
  from r obtain g k where idle: "\<not> has_active_agent_tool_calls m a" and g: "grp m i = Some g"
    and k: "position (\<lambda>x. x = a) (cg_members g) = Some k"
    and m': "m' = (upd_group i (\<lambda>g. set_members (swap_remove k (cg_members g)) g) m)
      \<lparr>tool_call_generations := AList.delete a (tool_call_generations m)\<rparr>"
    by (auto simp: try_remove_agent_def res_simps simp del: bind_res_simps)
  let ?m = "upd_group i (\<lambda>g. set_members (swap_remove k (cg_members g)) g) m"
  from ok have parts: "tree_ok m" "members_ok m" "slots_ok m (revoked m) gs" "agents_ok m (revoked m) gs"
      "guards_ok m gs" "generations_ok m" by (simp_all add: calls_ok_def counters_split)
  have n: "nodes m' = nodes m" using nodes_upd_group [of "\<lambda>g. set_members (swap_remove k (cg_members g)) g" i m]
    by (simp add: m' nodes_def [abs_def])
  have act: "act m' = act m" using act_upd_group [of "\<lambda>g. set_members (swap_remove k (cg_members g)) g" i m]
    by (simp add: m' act_def [abs_def])
  have "grp m' = grp ?m" unfolding m' by simp
  note frame = members_frame [of ?m m', OF members_remove(1) [OF parts(2) g k], unfolded this, OF refl]
  note mem_ok = frame(1)
  have mem: "set (mem m' j) = (if j = i then set (mem m i) - {a} else set (mem m j))" for j
    using members_remove(2) [OF parts(2) g k, of j] frame(2) by simp
  have "guards_ok m' gs"
  proof (rule guards_weaken [OF parts(5)])
    fix b assume "held_by (revoked m) gs b > 0"
    with idle_agent [OF ok idle] have "b \<noteq> a" by auto
    then show "map_of (tool_call_generations m') b = map_of (tool_call_generations m) b \<and>
        (\<forall>i. b \<in> set (mem m i) \<longrightarrow> b \<in> set (mem m' i))"
      by (auto simp: mem) (simp add: m' map_of_delete)
  qed (simp_all add: par_eq [OF n], simp_all add: m')
  moreover have "generations_ok m'" using parts(6) by (auto simp: generations_ok_def m' map_of_delete)
  moreover have "tree_ok m'" using parts(1) tree_ok_frame [of m' m, OF n] by (simp add: m')
  moreover have "slots_ok m' (revoked m') gs" using slots_frame [OF parts(3) act] by (simp add: m')
  moreover have "agents_ok m' (revoked m') gs" using agents_frame [OF parts(4), of m'] by (simp add: m')
  ultimately show ?thesis using mem_ok by (simp add: calls_ok_def counters_split)
qed

lemma limits_ok:
  assumes ok: "calls_ok (m, gs)" and r: "update_limits m i l = Inr m'"
  shows "calls_ok (m', gs)"
proof -
  from r obtain g where g: "grp m i = Some g" and m': "m' = upd_group i (\<lambda>g. g\<lparr>cg_limits := l\<rparr>) m"
    and fits: "\<not> (max_agents l > 0 \<and> agent_count (cg_usage g) > max_agents l)"
      "\<not> (max_concurrent_tool_calls l > 0 \<and> active_tool_calls (cg_usage g) > max_concurrent_tool_calls l)"
    by (auto simp: update_limits_def Let_def res_simps simp del: bind_res_simps)
  from ok have parts: "tree_ok m" "members_ok m" "slots_ok m (revoked m) gs" "agents_ok m (revoked m) gs"
      "guards_ok m gs" "generations_ok m" by (simp_all add: calls_ok_def counters_split)
  have n: "nodes m' = nodes m" unfolding m' by (rule nodes_upd_group) simp
  have mem: "mem m' = mem m" by (auto simp: m' mem_upd_group mem_def fun_eq_iff split: option.split)
  have "group_ok (g\<lparr>cg_limits := l\<rparr>)" using parts(2) g fits(1) by (auto simp: members_ok_def group_ok_def)
  then have "members_ok m'" using parts(2) g unfolding members_ok_def mem by (auto simp: m')
  moreover have "slots_ok m' (revoked m') gs"
    using parts(3) g fits(2) by (auto simp: slots_ok_def m' act_def not_less split: if_splits)
  moreover have "guards_ok m' gs" by (rule guards_frame [OF parts(5)]) (simp_all add: par_eq [OF n] mem, simp_all add: m')
  moreover have "generations_ok m'" by (rule generations_frame [OF parts(6)]) (simp_all add: m')
  moreover have "tree_ok m'" using parts(1) tree_ok_frame [of m' m, OF n] by (simp add: m')
  moreover have "agents_ok m' (revoked m') gs" using agents_frame [OF parts(4), of m'] by (simp add: m')
  ultimately show ?thesis by (simp add: calls_ok_def counters_split)
qed

lemma move_cases:
  assumes "try_move_agent m i j a = Inr m'"
  shows "(m' = m \<and> i = j \<and> (\<exists>hj. hierarchy_unlocked m j = Inr hj \<and> a \<in> set (cg_members (last hj)))) \<or> (i \<noteq> j \<and> \<not> has_active_agent_tool_calls m a \<and> (\<exists>hj. hierarchy_unlocked m j = Inr hj \<and> hj \<noteq> [] \<and>
      a \<notin> set (cg_members (last hj)) \<and>
      \<not> (max_agents (cg_limits (last hj)) > 0 \<and> agent_count (cg_usage (last hj)) \<ge> max_agents (cg_limits (last hj)))) \<and>
    (\<exists>g k. map_of (groups (upd_group j (\<lambda>g. set_members (cg_members g @ [a]) g) m)) i = Some g \<and>
      position (\<lambda>x. x = a) (cg_members g) = Some k \<and>
      m' = upd_group i (\<lambda>g. set_members (swap_remove k (cg_members g)) g)
        (upd_group j (\<lambda>g. set_members (cg_members g @ [a]) g) m)))"
  using assms
  by (auto simp: try_move_agent_def Let_def res_simps expect_def simp del: bind_res_simps split: if_splits option.splits)

lemma move_ok:
  assumes ok: "calls_ok (m, gs)" and r: "try_move_agent m i j a = Inr m'"
  shows "calls_ok (m', gs)"
proof (cases "m' = m")
  case False
  from ok have parts: "tree_ok m" "members_ok m" "slots_ok m (revoked m) gs" "agents_ok m (revoked m) gs"
      "guards_ok m gs" "generations_ok m" by (simp_all add: calls_ok_def counters_split)
  let ?add = "\<lambda>g. set_members (cg_members g @ [a]) g" and ?del = "\<lambda>k g. set_members (swap_remove k (cg_members g)) g"
  from move_cases [OF r] False obtain hj g k where ne: "i \<noteq> j" and idle: "\<not> has_active_agent_tool_calls m a"
    and hj: "hierarchy_unlocked m j = Inr hj" "a \<notin> set (cg_members (last hj))"
      "\<not> (max_agents (cg_limits (last hj)) > 0 \<and> agent_count (cg_usage (last hj)) \<ge> max_agents (cg_limits (last hj)))"
    and g: "grp (upd_group j ?add m) i = Some g" and k: "position (\<lambda>x. x = a) (cg_members g) = Some k"
    and m': "m' = upd_group i (?del k) (upd_group j ?add m)" by blast
  from hierarchy_Inr [OF parts(1) hj(1)] obtain h where h: "grp m j = Some h" "last hj = h" by metis
  from g ne have gi: "grp m i = Some g" by simp
  have gok: "group_ok g" "group_ok h" using parts(2) gi h(1) by (simp_all add: members_ok_def)
  note rm = group_ok_remove [OF gok(1) k]
  have n: "nodes m' = nodes m" unfolding m' by (simp add: nodes_upd_group)
  have act: "act m' = act m" unfolding m' by (simp add: act_upd_group)
  have grp': "grp m' = (grp m)(j \<mapsto> ?add h, i \<mapsto> ?del k g)"
    using ne gi h by (auto simp: m' fun_eq_iff)
  have mem: "set (mem m' x) = (if x = i then set (mem m i) - {a} else if x = j then insert a (set (mem m j)) else set (mem m x))" for x
    using ne gi h rm(2) by (auto simp: mem_def grp')
  have a: "a \<in> set (mem m i)" using k gi by (auto simp: mem_def position_Some_iff in_set_conv_nth)
  have uniq: "b \<in> set (mem m x) \<Longrightarrow> b \<in> set (mem m y) \<Longrightarrow> x = y" for b x y using parts(2) by (simp add: members_ok_def)
  have "group_ok (?add h)" using group_ok_add [OF gok(2)] hj h(2) by simp
  with rm(1) have "\<forall>x g. grp m' x = Some g \<longrightarrow> group_ok g" using parts(2) by (auto simp: members_ok_def grp')
  moreover have "\<forall>x y b. b \<in> set (mem m' x) \<longrightarrow> b \<in> set (mem m' y) \<longrightarrow> x = y"
    using uniq a ne by (auto simp: mem split: if_splits)
  ultimately have "members_ok m'" by (simp add: members_ok_def)
  moreover have "guards_ok m' gs"
  proof (rule guards_weaken [OF parts(5)])
    fix b assume "held_by (revoked m) gs b > 0"
    with idle_agent [OF ok idle] have "b \<noteq> a" by auto
    then show "map_of (tool_call_generations m') b = map_of (tool_call_generations m) b \<and>
        (\<forall>i. b \<in> set (mem m i) \<longrightarrow> b \<in> set (mem m' i))" by (auto simp: mem) (simp add: m')
  qed (simp_all add: par_eq [OF n], simp_all add: m')
  moreover have "generations_ok m'" by (rule generations_frame [OF parts(6)]) (simp_all add: m')
  moreover have "tree_ok m'" using parts(1) tree_ok_frame [of m' m, OF n] by (simp add: m')
  moreover have "slots_ok m' (revoked m') gs" using slots_frame [OF parts(3) act] by (simp add: m')
  moreover have "agents_ok m' (revoked m') gs" using agents_frame [OF parts(4), of m'] by (simp add: m')
  ultimately show ?thesis by (simp add: calls_ok_def counters_split)
qed (use ok in simp)

lemma calls_parts:
  "calls_ok (m, gs) \<longleftrightarrow> tree_ok m \<and> members_ok m \<and> slots_ok m (revoked m) gs \<and> agents_ok m (revoked m) gs \<and>
     guards_ok m gs \<and> generations_ok m"
  by (auto simp: calls_ok_def counters_split)

text \<open>Live guards only mention groups that exist.\<close>

lemma guard_groups_exist:
  assumes "tree_ok m" and "guards_ok m gs" and "gd \<in> set gs" and "live (revoked m) gd" and "i \<in> set (guard_cgroups gd)"
  shows "grp m i \<noteq> None"
proof -
  from assms(2-4) obtain j where "tpath (par m) (root_id m) j (guard_cgroups gd)" unfolding guards_ok_def by blast
  from path_exists [OF assms(1) this] assms(5) show ?thesis by blast
qed

lemma group_ok_children: "group_ok (g\<lparr>cg_children := cs\<rparr>) = group_ok g"
  by (simp add: group_ok_def)

lemma create_ok:
  assumes ok: "calls_ok (m, gs)" and nowrap: "unat (next_cgroup_id m) < 2 ^ 64 - 1"
    and r: "create_scoped m name parent scope limits = (res, m')"
  shows "calls_ok (m', gs)"
proof -
  from ok have parts: "tree_ok m" "members_ok m" "slots_ok m (revoked m) gs" "agents_ok m (revoked m) gs"
      "guards_ok m gs" "generations_ok m" by (simp_all add: calls_parts)
  note tree = create_scoped_tree [OF parts(1) r nowrap]
  from parts(1) r show ?thesis
  proof (cases rule: create_scoped_cases)
    case (1 e)
    let ?m = "m\<lparr>next_cgroup_id := next_cgroup_id m + 1\<rparr>"
    have views: "par ?m = par m" "act ?m = act m" "mem ?m = mem m" by (simp_all add: fun_eq_iff par_def act_def mem_def)
    have "calls_ok (?m, gs)" if "tree_ok ?m"
      using that ok by (simp add: calls_ok_def calls_defs views)
    with 1 tree ok show ?thesis by auto
  next
    case (2 i pg)
    note fresh = tree_fresh [OF parts(1), folded 2(2)]
    then have ne: "i \<noteq> parent" using 2(3) by auto
    let ?g = "\<lparr>cg_id = i, cg_name = name, cg_parent = Some parent, cg_children = [], cg_limits = limits,
      cg_usage = usage_default, cg_members = [], quota_scope = scope\<rparr>"
    have grp': "grp m' = (grp m)(i \<mapsto> ?g, parent \<mapsto> pg\<lparr>cg_children := cg_children pg @ [i]\<rparr>)"
      using ne 2(3) unfolding 2(6) by (auto simp: map_of_update fun_eq_iff)
    have par': "par m' x = (if x = i then Some parent else par m x)" for x
      using 2(3) ne by (simp add: par_def grp')
    have act': "act m' = (act m)(i \<mapsto> (0, max_concurrent_tool_calls limits))"
      using 2(3) ne by (auto simp: fun_eq_iff act_def grp' usage_default_def)
    have mem': "mem m' = mem m" using 2(3) fresh by (auto simp: fun_eq_iff mem_def grp')
    have gok: "group_ok ?g" by (simp add: group_ok_def usage_default_def member_count_def)
    have pok: "group_ok (pg\<lparr>cg_children := cg_children pg @ [i]\<rparr>)" using parts(2) 2(3) by (simp add: members_ok_def group_ok_children)
    have sel: "revoked m' = revoked m" "root_id m' = root_id m" "next_generation m' = next_generation m"
      "tool_call_generations m' = tool_call_generations m" "active_tool_calls_by_agent m' = active_tool_calls_by_agent m"
      unfolding 2(6) by simp_all
    have clear: "covering (revoked m) gs i = 0"
      unfolding covering_0_iff using guard_groups_exist [OF parts(1,5)] fresh by blast
    have "members_ok m'" using parts(2) gok pok unfolding members_ok_def mem' by (auto simp: grp')
    moreover have "slots_ok m' (revoked m) gs" using parts(3) clear by (auto simp: slots_ok_def act')
    moreover have "guards_ok m' gs"
    proof (rule guards_weaken [OF parts(5)])
      fix gd j assume gd: "gd \<in> set gs" "live (revoked m) gd" "tpath (par m) (root_id m) j (guard_cgroups gd)"
      have "i \<notin> set (guard_cgroups gd)" using guard_groups_exist [OF parts(1,5) gd(1,2)] fresh by blast
      then show "tpath (par m') (root_id m) j (guard_cgroups gd)" by (intro tpath_cong [OF gd(3)]) (auto simp: par')
    qed (simp_all add: sel mem')
    ultimately show ?thesis
      using tree agents_frame [OF parts(4) sel(5)] generations_frame [OF parts(6) sel(1,4,3)] by (simp add: calls_parts sel)
  qed
qed

lemma leaf_ok:
  assumes ok: "calls_ok (m, gs)" and r: "try_remove_empty_leaf m i = Inr m'"
  shows "calls_ok (m', gs)"
  using r
proof (rule try_remove_empty_leaf_Inr)
  fix g p pg
  assume a: "i \<noteq> root_id m" "grp m i = Some g" "cg_children g = []" "cg_members g = []"
    "active_tool_calls (cg_usage g) = 0" "cg_parent g = Some p" "grp m p = Some pg"
    and m': "m' = (upd_group p (\<lambda>g. g\<lparr>cg_children := filter (\<lambda>c. c \<noteq> i) (cg_children g)\<rparr>) m)
      \<lparr>scope_index := AList.delete (quota_scope g) (scope_index m),
       groups := AList.delete i (AList.map_entry p (\<lambda>g. g\<lparr>cg_children := filter (\<lambda>c. c \<noteq> i) (cg_children g)\<rparr>) (groups m))\<rparr>"
  from ok have parts: "tree_ok m" "members_ok m" "slots_ok m (revoked m) gs" "agents_ok m (revoked m) gs"
      "guards_ok m gs" "generations_ok m" by (simp_all add: calls_parts)
  have grp': "grp m' = (grp m)(p \<mapsto> pg\<lparr>cg_children := filter (\<lambda>c. c \<noteq> i) (cg_children pg)\<rparr>, i := None)"
    using a(7) by (simp add: m' map_of_delete map_of_map_entry)
  have par': "par m' x = par m x" if "x \<noteq> i" for x using that a(7) by (simp add: par_def grp')
  have act': "act m' = (act m)(i := None)" using a(7) by (auto simp: fun_eq_iff act_def grp')
  have mem': "mem m' = mem m" using a(2,4,7) by (auto simp: fun_eq_iff mem_def grp')
  have sel: "revoked m' = revoked m" "root_id m' = root_id m" "next_generation m' = next_generation m"
    "tool_call_generations m' = tool_call_generations m" "active_tool_calls_by_agent m' = active_tool_calls_by_agent m"
    by (simp_all add: m')
  have "covering (revoked m) gs i = 0" using parts(3) a(2,5) unfolding slots_ok_def by (force simp: act_def)
  then have clear: "gd \<in> set gs \<Longrightarrow> live (revoked m) gd \<Longrightarrow> i \<notin> set (guard_cgroups gd)" for gd
    by (simp add: covering_0_iff)
  have "group_ok (pg\<lparr>cg_children := filter (\<lambda>c. c \<noteq> i) (cg_children pg)\<rparr>)"
    using parts(2) a(7) by (simp add: members_ok_def group_ok_children)
  then have "members_ok m'" using parts(2) unfolding members_ok_def mem' by (auto simp: grp')
  moreover have "guards_ok m' gs"
  proof (rule guards_weaken [OF parts(5)])
    fix gd j assume gd: "gd \<in> set gs" "live (revoked m) gd" "tpath (par m) (root_id m) j (guard_cgroups gd)"
    have "\<forall>x\<in>set (guard_cgroups gd). par m' x = par m x" using par' clear [OF gd(1,2)] by metis
    then show "tpath (par m') (root_id m) j (guard_cgroups gd)" by (rule tpath_cong [OF gd(3)])
  qed (simp_all add: sel mem')
  moreover have "slots_ok m' (revoked m) gs" using parts(3) by (auto simp: slots_ok_def act')
  ultimately show ?thesis
    using remove_leaf_tree [OF parts(1) r] agents_frame [OF parts(4) sel(5)] generations_frame [OF parts(6) sel(1,4,3)]
    by (simp add: calls_parts sel)
qed

section \<open>Reservations\<close>

lemma calls_frame:
  assumes ok: "calls_ok (m, gs)" and g: "grp m' = grp m"
    and sel: "scope_index m' = scope_index m" "root_id m' = root_id m" "next_cgroup_id m' = next_cgroup_id m"
      "active_tool_calls_by_agent m' = active_tool_calls_by_agent m" "tool_call_generations m' = tool_call_generations m"
      "next_generation m' = next_generation m" "revoked m' = revoked m"
  shows "calls_ok (m', gs)"
proof -
  from ok have parts: "tree_ok m" "members_ok m" "slots_ok m (revoked m) gs" "agents_ok m (revoked m) gs"
      "guards_ok m gs" "generations_ok m" by (simp_all add: calls_parts)
  have n: "nodes m' = nodes m" and a: "act m' = act m" and mm: "mem m' = mem m"
    by (simp_all add: fun_eq_iff nodes_def act_def mem_def g)
  show ?thesis
    unfolding calls_parts sel(7)
    using parts(1) tree_ok_frame [OF n sel(1,2,3)] members_frame(1) [OF parts(2), of m', unfolded g, OF refl]
      slots_frame [OF parts(3) a] agents_frame [OF parts(4) sel(4)]
      guards_frame [OF parts(5) par_eq [OF n] sel(2,7,5) mm sel(6)] generations_frame [OF parts(6) sel(7,5,6)]
    by blast
qed

lemma fold_frame:
  assumes "tree_ok m" and "members_ok m" and d: "distinct ps"
    and f: "\<And>g. shape (f g) = shape g" "\<And>g. cg_members (f g) = cg_members g"
      "\<And>g. agent_count (cg_usage (f g)) = agent_count (cg_usage g)" "\<And>g. cg_limits (f g) = cg_limits g"
  shows "tree_ok (fold (\<lambda>i. upd_group i f) ps m)" and "members_ok (fold (\<lambda>i. upd_group i f) ps m)"
    and "mem (fold (\<lambda>i. upd_group i f) ps m) = mem m" and "par (fold (\<lambda>i. upd_group i f) ps m) = par m"
proof -
  let ?m = "fold (\<lambda>i. upd_group i f) ps m"
  have n: "nodes ?m = nodes m" using f(1) by (rule fold_upd_nodes)
  then show "par ?m = par m" by (rule par_eq)
  show "tree_ok ?m" using assms(1) tree_ok_frame [of ?m m, OF n] by simp
  have "map_option (\<lambda>g. (cg_members g, agent_count (cg_usage g), max_agents (cg_limits g))) (grp ?m i) =
      map_option (\<lambda>g. (cg_members g, agent_count (cg_usage g), max_agents (cg_limits g))) (grp m i)" for i
    using d f by (simp add: fold_upd_grp option.map_comp comp_def)
  from members_frame [OF assms(2) this] show "members_ok ?m" "mem ?m = mem m" .
qed

lemma acquire_slots_result:
  assumes ok: "calls_ok (m, gs)" and len: "length gs < 2 ^ 32 - 1" and h: "hierarchy_unlocked m i = Inr hs"
  shows "((\<forall>j\<in>set (map cg_id hs). slot_free m j) \<and>
      acquire_slots m hs [] = (Inr (map cg_id hs), fold (\<lambda>i. upd_group i add_call) (map cg_id hs) m)) \<or>
    (\<exists>e m1. acquire_slots m hs [] = (Inl e, m1) \<and> calls_ok (m1, gs) \<and> grp m1 = grp m)"
proof -
  from ok have tree: "tree_ok m" and c: "counters_ok m gs" by (simp_all add: calls_ok_def)
  obtain g where "distinct (map cg_id hs)" by (rule hierarchy_Inr [OF tree h])
  moreover have "\<forall>k g. grp m k = Some g \<longrightarrow> cg_id g = k" using tree_group(1) [OF tree] by blast
  ultimately consider (full) "\<forall>h\<in>set hs. slot_free m (cg_id h)"
      "acquire_slots m hs [] = (Inr (map cg_id hs), fold (\<lambda>i. upd_group i add_call) (map cg_id hs) m)"
    | (undone) e ps where "acquire_slots m hs [] = (Inl e, rollback_tool_calls (fold (\<lambda>i. upd_group i add_call) ps m) ps)" "distinct ps"
    using acquire_slots_spec [of hs m "[]"] by auto
  then show ?thesis
  proof cases
    case undone
    have "grp (rollback_tool_calls (fold (\<lambda>i. upd_group i add_call) ps m) ps) = grp m"
      using rollback_restores [OF undone(2)] active_bound [OF c len] by blast
    with calls_frame [OF ok this] undone(1) show ?thesis by (simp add: rollback_tool_calls_def)
  qed simp
qed

lemma guards_push:
  assumes "guards_ok m gs" and "length gs < 2 ^ 32 - 1" and "tpath (par m) (root_id m) i (guard_cgroups gd)"
    and "\<And>a gen. agent_reservation gd = Some (a, gen) \<Longrightarrow>
      map_of (tool_call_generations m) a = Some gen \<and> a \<in> set (mem m i) \<and> gen < next_generation m"
  shows "guards_ok m (gd # gs)"
  using assms unfolding guards_ok_def by auto

lemma acquire_ok:
  assumes ok: "calls_ok (m, gs)" and len: "length gs < 2 ^ 32 - 1" and r: "acquire_tool_call_checked m i = (res, m')"
  shows "case res of Inl e \<Rightarrow> calls_ok (m', gs) \<and> grp m' = grp m | Inr gd \<Rightarrow> calls_ok (m', gd # gs)"
proof (cases "hierarchy_unlocked m i")
  case (Inl e)
  with r ok show ?thesis by (auto simp: acquire_tool_call_checked_def)
next
  case (Inr hs)
  from ok have parts: "tree_ok m" "members_ok m" "slots_ok m (revoked m) gs" "agents_ok m (revoked m) gs"
      "guards_ok m gs" "generations_ok m" by (simp_all add: calls_parts)
  obtain g where path: "tpath (par m) (root_id m) i (map cg_id hs)" "distinct (map cg_id hs)"
    by (rule hierarchy_Inr [OF parts(1) Inr])
  let ?m = "fold (\<lambda>i. upd_group i add_call) (map cg_id hs) m"
  let ?gd = "\<lparr>guard_cgroups = map cg_id hs, agent_reservation = None\<rparr>"
  from acquire_slots_result [OF ok len Inr] show ?thesis
  proof (elim disjE exE conjE)
    assume free: "\<forall>j\<in>set (map cg_id hs). slot_free m j"
      and a: "acquire_slots m hs [] = (Inr (map cg_id hs), ?m)"
    have res: "res = Inr ?gd" "m' = ?m"
      using r by (simp_all add: acquire_tool_call_checked_def acquire_tool_call_for_hierarchy_def Inr a)
    note fr = fold_frame [OF parts(1,2) path(2), of add_call]
    have "guards_ok ?m gs" using parts(5) by (rule guards_frame) (simp_all add: fr)
    then have "guards_ok ?m (?gd # gs)" by (rule guards_push [OF _ len]) (use path(1) in \<open>simp_all add: fr\<close>)
    moreover have "slots_ok ?m (revoked m) (?gd # gs)"
      using slots_push [OF parts(3) len, of ?gd] path(2) free by (simp add: live_def)
    moreover have "agents_ok ?m (revoked m) (?gd # gs)" using parts(4) by (simp add: agents_ok_def held_by_Cons)
    moreover have "generations_ok ?m" using parts(6) by (rule generations_frame) simp_all
    ultimately show ?thesis using fr by (simp add: res calls_parts)
  next
    fix e m1 assume "acquire_slots m hs [] = (Inl e, m1)" "calls_ok (m1, gs)" "grp m1 = grp m"
    with r show ?thesis by (auto simp: acquire_tool_call_checked_def acquire_tool_call_for_hierarchy_def Inr)
  qed
qed

lemma reserve_agent_spec:
  assumes gens: "generations_ok m"
  obtains gen m' where "reserve_agent m a = ((a, gen), m')" and "generations_ok m'" and "gen \<notin> set (revoked m)"
    and "map_of (tool_call_generations m') = (map_of (tool_call_generations m))(a \<mapsto> gen)"
    and "map_of (tool_call_generations m) a \<in> {None, Some gen}"
    and "gen < next_generation m'" and "next_generation m \<le> next_generation m'"
    and "map_of (active_tool_calls_by_agent m') = (map_of (active_tool_calls_by_agent m))
      (a \<mapsto> (case map_of (active_tool_calls_by_agent m) a of Some n \<Rightarrow> sat_add n 1 | None \<Rightarrow> 1))"
    and "groups m' = groups m" "scope_index m' = scope_index m" "root_id m' = root_id m" "next_cgroup_id m' = next_cgroup_id m"
      "revoked m' = revoked m"
proof (cases "map_of (tool_call_generations m) a")
  case None
  have "gen < next_generation m" if "map_of (tool_call_generations m) b = Some gen" for b gen
    using gens that by (auto simp: generations_ok_def)
  with None gens show thesis
    by (intro that [of "next_generation m" "snd (reserve_agent m a)"])
      (fastforce simp: reserve_agent_def map_of_update generations_ok_def Let_def fun_eq_iff)+
next
  case (Some gen)
  with gens show thesis
    by (intro that [of gen "snd (reserve_agent m a)"])
      (auto simp: reserve_agent_def map_of_update generations_ok_def Let_def fun_eq_iff)
qed

lemma held_by_le: "held_by rvk gs a \<le> length gs"
  by (simp add: held_by_def)

lemma held_generation:
  assumes "guards_ok m gs" and "gd \<in> set gs" and "live (revoked m) gd" and "agent_reservation gd = Some (a, gen)"
  shows "map_of (tool_call_generations m) a = Some gen"
  using assms unfolding guards_ok_def by blast

lemma agents_reserve:
  assumes ok: "agents_ok m rvk gs" and len: "length gs < 2 ^ 32 - 1" and gd: "live rvk gd" "agent_reservation gd = Some (a, gen)"
    and m': "map_of (active_tool_calls_by_agent m') = (map_of (active_tool_calls_by_agent m))
      (a \<mapsto> (case map_of (active_tool_calls_by_agent m) a of Some n \<Rightarrow> sat_add n 1 | None \<Rightarrow> 1))"
  shows "agents_ok m' rvk (gd # gs)"
  unfolding agents_ok_def
proof
  fix b
  have b: "(case map_of (active_tool_calls_by_agent m) b of None \<Rightarrow> 0 | Some n \<Rightarrow> unat n) = held_by rvk gs b" for b
    using ok by (simp add: agents_ok_def)
  show "(case map_of (active_tool_calls_by_agent m') b of None \<Rightarrow> 0 | Some n \<Rightarrow> unat n) = held_by rvk (gd # gs) b"
  proof (cases "b = a")
    case True
    have "held_by rvk gs a < 2 ^ 32 - 1" using held_by_le [of rvk gs a] len by simp
    with True b [of a] gd show ?thesis
      by (cases "map_of (active_tool_calls_by_agent m) a") (simp_all add: held_by_Cons m' sat_simps)
  next
    case False
    with b [of b] gd show ?thesis by (simp add: held_by_Cons m')
  qed
qed

lemma guards_reserve:
  assumes ok: "guards_ok m gs" and same: "root_id m' = root_id m" "revoked m' = revoked m" "par m' = par m" "mem m' = mem m"
    and gens: "map_of (tool_call_generations m') = (map_of (tool_call_generations m))(a \<mapsto> gen)"
      "map_of (tool_call_generations m) a \<in> {None, Some gen}" "next_generation m \<le> next_generation m'"
  shows "guards_ok m' gs"
proof -
  have "map_of (tool_call_generations m') b = Some h"
    if "map_of (tool_call_generations m) b = Some h" for b h
    using that gens(1,2) by auto
  moreover have "h < next_generation m \<Longrightarrow> h < next_generation m'" for h using gens(3) by simp
  ultimately show ?thesis using ok unfolding guards_ok_def same by blast
qed

lemma reserve_ok:
  assumes ok: "calls_ok (m, gs)" and len: "length gs < 2 ^ 32 - 1" and r: "acquire_tool_call_for_agent m i a = (res, m')"
  shows "case res of Inl e \<Rightarrow> calls_ok (m', gs) \<and> grp m' = grp m | Inr gd \<Rightarrow> calls_ok (m', gd # gs)"
proof (cases "hierarchy_unlocked m i")
  case (Inl e)
  with r ok show ?thesis by (auto simp: acquire_tool_call_for_agent_def)
next
  case (Inr hs)
  from ok have parts: "tree_ok m" "members_ok m" "slots_ok m (revoked m) gs" "agents_ok m (revoked m) gs"
      "guards_ok m gs" "generations_ok m" by (simp_all add: calls_parts)
  obtain g where g: "grp m i = Some g" "hs \<noteq> []" "last hs = g"
    and path: "tpath (par m) (root_id m) i (map cg_id hs)" "distinct (map cg_id hs)"
    by (rule hierarchy_Inr [OF parts(1) Inr])
  show ?thesis
  proof (cases "a \<in> set (cg_members g)")
    case False
    with r g ok show ?thesis by (auto simp: acquire_tool_call_for_agent_def Inr)
  next
    case member: True
    then have a: "a \<in> set (mem m i)" using g by (simp add: mem_def)
    have r: "acquire_tool_call_for_hierarchy m hs (Some a) = (res, m')"
      using r g member by (simp add: acquire_tool_call_for_agent_def Inr)
    let ?m = "fold (\<lambda>i. upd_group i add_call) (map cg_id hs) m"
    from acquire_slots_result [OF ok len Inr] show ?thesis
    proof (elim disjE exE conjE)
      assume free: "\<forall>j\<in>set (map cg_id hs). slot_free m j"
        and s: "acquire_slots m hs [] = (Inr (map cg_id hs), ?m)"
      note fr = fold_frame [OF parts(1,2) path(2), of add_call, simplified]
      have "generations_ok ?m" using parts(6) by (rule generations_frame) simp_all
      then show ?thesis
      proof (rule reserve_agent_spec [of _ a])
        fix gen m2
        assume m2: "reserve_agent ?m a = ((a, gen), m2)" "generations_ok m2" "gen \<notin> set (revoked ?m)"
            "map_of (tool_call_generations m2) = (map_of (tool_call_generations ?m))(a \<mapsto> gen)"
            "map_of (tool_call_generations ?m) a \<in> {None, Some gen}"
            "gen < next_generation m2" "next_generation ?m \<le> next_generation m2"
            "map_of (active_tool_calls_by_agent m2) = (map_of (active_tool_calls_by_agent ?m))
              (a \<mapsto> (case map_of (active_tool_calls_by_agent ?m) a of Some n \<Rightarrow> sat_add n 1 | None \<Rightarrow> 1))"
          and sel: "groups m2 = groups ?m" "scope_index m2 = scope_index ?m" "root_id m2 = root_id ?m"
            "next_cgroup_id m2 = next_cgroup_id ?m" "revoked m2 = revoked ?m"
        let ?gd = "\<lparr>guard_cgroups = map cg_id hs, agent_reservation = Some (a, gen)\<rparr>"
        have res: "res = Inr ?gd" "m' = m2"
          using r by (simp_all add: acquire_tool_call_for_hierarchy_def s m2(1))
        have views: "nodes m2 = nodes ?m" "act m2 = act ?m" "mem m2 = mem ?m"
          by (simp_all add: fun_eq_iff nodes_def act_def mem_def sel(1))
        have live: "live (revoked m) ?gd" using m2(3) by (simp add: live_def)
        have "guards_ok m2 gs"
          by (rule guards_reserve [OF parts(5), of _ a gen]) (use sel m2 fr views(3) par_eq [OF views(1)] in simp_all)
        then have "guards_ok m2 (?gd # gs)"
          by (rule guards_push [OF _ len]) (use path(1) a sel m2 fr views(3) par_eq [OF views(1)] in simp_all)
        moreover have "slots_ok m2 (revoked m) (?gd # gs)"
          using slots_push [OF parts(3) len, of ?gd] path(2) free live slots_frame views(2) by fastforce
        moreover have "agents_ok m2 (revoked m) (?gd # gs)"
          by (rule agents_reserve [OF parts(4) len live]) (use m2(8) in simp_all)
        moreover have "members_ok m2" using members_frame(1) [OF fr(2), of m2] by (simp add: sel(1))
        moreover have "tree_ok m2" using fr(1) tree_ok_frame [OF views(1) sel(2,3,4)] by simp
        ultimately show ?thesis using m2(2) sel(5) by (simp add: res calls_parts)
      qed
    next
      fix e m1 assume "acquire_slots m hs [] = (Inl e, m1)" "calls_ok (m1, gs)" "grp m1 = grp m"
      with r show ?thesis by (auto simp: acquire_tool_call_for_hierarchy_def)
    qed
  qed
qed

lemma groups_frame:
  assumes g: "groups m' = groups m"
  shows "nodes m' = nodes m" "act m' = act m" "mem m' = mem m" "par m' = par m" "members_ok m \<Longrightarrow> members_ok m'"
    "slots_ok m rvk gs \<Longrightarrow> slots_ok m' rvk gs"
proof -
  show n: "nodes m' = nodes m" and a: "act m' = act m" and "mem m' = mem m"
    by (simp_all add: fun_eq_iff nodes_def act_def mem_def g)
  show "par m' = par m" using n by (rule par_eq)
  show "members_ok m \<Longrightarrow> members_ok m'" using members_frame(1) [of m m', unfolded g, OF _ refl] .
  show "slots_ok m rvk gs \<Longrightarrow> slots_ok m' rvk gs" using slots_frame [OF _ a] .
qed

lemma guards_remove: "guards_ok m (xs @ gd # ys) \<Longrightarrow> guards_ok m (xs @ ys)"
  unfolding guards_ok_def by auto

lemma agents_release:
  assumes ok: "agents_ok m rvk (xs @ gd # ys)" and gd: "live rvk gd" "agent_reservation gd = Some (a, gen)"
  obtains n where "map_of (active_tool_calls_by_agent m) a = Some n" and "unat n = Suc (held_by rvk (xs @ ys) a)"
    and "\<And>m'. map_of (active_tool_calls_by_agent m') = (map_of (active_tool_calls_by_agent m))
      (a := (if sat_sub n 1 = 0 then None else Some (sat_sub n 1))) \<Longrightarrow> agents_ok m' rvk (xs @ ys)"
proof -
  have b: "(case map_of (active_tool_calls_by_agent m) b of None \<Rightarrow> 0 | Some n \<Rightarrow> unat n) =
      held_by rvk (xs @ ys) b + (if b = a then 1 else 0)" for b
    using ok gd unfolding agents_ok_def by (simp add: held_by_remove)
  then obtain n where n: "map_of (active_tool_calls_by_agent m) a = Some n" "unat n = Suc (held_by rvk (xs @ ys) a)"
    using b [of a] by (cases "map_of (active_tool_calls_by_agent m) a") simp_all
  then have s: "unat (sat_sub n 1) = held_by rvk (xs @ ys) a" by (simp add: sat_simps)
  show thesis
  proof (rule that [OF n])
    fix m' :: CgroupManager
    assume m': "map_of (active_tool_calls_by_agent m') = (map_of (active_tool_calls_by_agent m))
      (a := (if sat_sub n 1 = 0 then None else Some (sat_sub n 1)))"
    have "(case map_of (active_tool_calls_by_agent m') c of None \<Rightarrow> 0 | Some n \<Rightarrow> unat n) = held_by rvk (xs @ ys) c" for c
      using s b [of c] by (cases "c = a"; cases "sat_sub n 1 = 0") (simp_all add: m')
    then show "agents_ok m' rvk (xs @ ys)" by (simp add: agents_ok_def)
  qed
qed

lemma dead_guard_counts:
  "\<not> live rvk gd \<Longrightarrow> covering rvk (xs @ gd # ys) = covering rvk (xs @ ys)"
  "\<not> live rvk gd \<Longrightarrow> held_by rvk (xs @ gd # ys) = held_by rvk (xs @ ys)"
  by (simp_all add: fun_eq_iff covering_remove held_by_remove)

lemma release_live:
  assumes ok: "calls_ok (m, xs @ gd # ys)" and live: "live (revoked m) gd"
  shows "tree_ok (rollback_tool_calls m (guard_cgroups gd))" "members_ok (rollback_tool_calls m (guard_cgroups gd))"
    "slots_ok (rollback_tool_calls m (guard_cgroups gd)) (revoked m) (xs @ ys)"
    "guards_ok (rollback_tool_calls m (guard_cgroups gd)) (xs @ ys)"
    "generations_ok (rollback_tool_calls m (guard_cgroups gd))"
proof -
  from ok have parts: "tree_ok m" "members_ok m" "slots_ok m (revoked m) (xs @ gd # ys)"
      "guards_ok m (xs @ gd # ys)" "generations_ok m" by (simp_all add: calls_parts)
  from parts(4) live obtain j where "tpath (par m) (root_id m) j (guard_cgroups gd)" unfolding guards_ok_def by auto
  then have d: "distinct (guard_cgroups gd)" by (rule path_distinct [OF parts(1)])
  note fr = fold_frame [OF parts(1,2) d, of "sub_calls 1", simplified, folded rollback_tool_calls_def]
  show "tree_ok (rollback_tool_calls m (guard_cgroups gd))" "members_ok (rollback_tool_calls m (guard_cgroups gd))" by (rule fr)+
  show "slots_ok (rollback_tool_calls m (guard_cgroups gd)) (revoked m) (xs @ ys)" by (rule slots_pop [OF parts(3) d live])
  show "guards_ok (rollback_tool_calls m (guard_cgroups gd)) (xs @ ys)"
    using guards_remove [OF parts(4)] by (rule guards_frame) (use fr in \<open>simp_all add: rollback_tool_calls_def\<close>)
  show "generations_ok (rollback_tool_calls m (guard_cgroups gd))"
    using parts(5) by (rule generations_frame) (simp_all add: rollback_tool_calls_def)
qed

lemma drop_ok:
  assumes ok: "calls_ok (m, xs @ gd # ys)"
  shows "calls_ok (release_tool_call m gd, xs @ ys)"
proof (cases "live (revoked m) gd")
  case False
  then obtain a gen where "agent_reservation gd = Some (a, gen)" "gen \<in> set (revoked m)" by (auto simp: live_cases)
  then have "release_tool_call m gd = m" by (simp add: release_tool_call_def)
  moreover have "calls_ok (m, xs @ ys)"
    using ok guards_remove dead_guard_counts [OF False] by (auto simp: calls_parts slots_ok_def agents_ok_def)
  ultimately show ?thesis by simp
next
  case True
  let ?m = "rollback_tool_calls m (guard_cgroups gd)"
  have sel: "revoked ?m = revoked m" "active_tool_calls_by_agent ?m = active_tool_calls_by_agent m" by (simp_all add: rollback_tool_calls_def)
  note base = release_live [OF ok True]
  from ok have ag: "agents_ok m (revoked m) (xs @ gd # ys)" by (simp add: calls_parts)
  show ?thesis
  proof (cases "agent_reservation gd")
    case None
    with ag have "agents_ok ?m (revoked m) (xs @ ys)" by (simp add: agents_ok_def held_by_remove sel)
    with base None show ?thesis by (simp add: release_tool_call_def calls_parts sel)
  next
    case (Some r)
    obtain a gen where r: "agent_reservation gd = Some (a, gen)" using Some by (cases r) simp
    obtain n where n: "map_of (active_tool_calls_by_agent m) a = Some n" "unat n = Suc (held_by (revoked m) (xs @ ys) a)"
      and ag': "\<And>m'. map_of (active_tool_calls_by_agent m') = (map_of (active_tool_calls_by_agent m))
        (a := (if sat_sub n 1 = 0 then None else Some (sat_sub n 1))) \<Longrightarrow> agents_ok m' (revoked m) (xs @ ys)"
      using agents_release [OF ag True r] by blast
    let ?keep = "?m\<lparr>active_tool_calls_by_agent := AList.update a (sat_sub n 1) (active_tool_calls_by_agent ?m)\<rparr>"
    let ?gone = "?m\<lparr>active_tool_calls_by_agent := AList.delete a (active_tool_calls_by_agent ?m),
      tool_call_generations := AList.delete a (tool_call_generations ?m)\<rparr>"
    have m': "release_tool_call m gd = (if sat_sub n 1 = 0 then ?gone else ?keep)"
      using r True n(1) by (simp add: release_tool_call_def live_def sel Let_def)
    have gr: "groups ?keep = groups ?m" "groups ?gone = groups ?m" by simp_all
    note keep = groups_frame [OF gr(1)] and gone = groups_frame [OF gr(2)]
    have tree: "tree_ok ?keep" "tree_ok ?gone"
      using base(1) tree_ok_frame [OF keep(1)] tree_ok_frame [OF gone(1)] by simp_all
    show ?thesis
    proof (cases "sat_sub n 1 = 0")
      case False
      have "guards_ok ?keep (xs @ ys)" using base(4) by (rule guards_frame) (simp_all only: keep, simp_all)
      moreover have "generations_ok ?keep" using base(5) by (rule generations_frame) simp_all
      moreover have "agents_ok ?keep (revoked m) (xs @ ys)" using False by (intro ag') (simp add: map_of_update sel)
      ultimately show ?thesis using tree(1) keep(5) [OF base(2)] keep(6) [OF base(3)] False m' by (simp add: calls_parts sel)
    next
      case zero: True
      then have "unat (sat_sub n 1) = 0" by simp
      then have none: "held_by (revoked m) (xs @ ys) a = 0" using n(2) by (simp add: sat_simps)
      have "guards_ok ?gone (xs @ ys)"
        by (rule guards_weaken [OF base(4)]) (simp_all only: gone, use none in \<open>auto simp: map_of_delete sel\<close>)
      moreover have "generations_ok ?gone" using base(5) by (auto simp: generations_ok_def map_of_delete)
      moreover have "agents_ok ?gone (revoked m) (xs @ ys)" using zero by (intro ag') (simp add: map_of_delete sel)
      ultimately show ?thesis using tree(2) gone(5) [OF base(2)] gone(6) [OF base(3)] zero m' by (simp add: calls_parts sel)
    qed
  qed
qed

text \<open>Revoking an agent: its guards stop counting, on exactly the path of its group.\<close>

lemma revoke_agent_counts:
  assumes ok: "calls_ok (m, gs)" and path: "tpath (par m) (root_id m) i ps" and a: "a \<in> set (mem m i)"
    and rvk': "rvk' = (case map_of (tool_call_generations m) a of Some gen \<Rightarrow> gen # revoked m | None \<Rightarrow> revoked m)"
  shows "covering (revoked m) gs j = covering rvk' gs j + (if j \<in> set ps then held_by (revoked m) gs a else 0)"
    and "held_by rvk' gs b = (if b = a then 0 else held_by (revoked m) gs b)"
proof -
  from ok have parts: "members_ok m" "guards_ok m gs" "generations_ok m" by (simp_all add: calls_parts)
  have "covering (revoked m) gs j = covering rvk' gs j + (if j \<in> set ps then held_by (revoked m) gs a else 0) \<and>
     held_by rvk' gs b = (if b = a then 0 else held_by (revoked m) gs b)"
  proof (cases "map_of (tool_call_generations m) a")
    case None
    have "map_option fst (agent_reservation gd) \<noteq> Some a" if "gd \<in> set gs" "live (revoked m) gd" for gd
      using held_generation [OF parts(2) that] None by auto
    then have "held_by (revoked m) gs a = 0" by (simp add: held_by_0_iff)
    with None show ?thesis by (simp add: rvk')
  next
    case (Some gen)
    have "\<forall>gd\<in>set gs. live (revoked m) gd \<longrightarrow> (\<forall>b. agent_reservation gd = Some (b, gen) \<longrightarrow> b = a) \<and>
      (\<forall>h. agent_reservation gd = Some (a, h) \<longrightarrow> h = gen \<and> set (guard_cgroups gd) = set ps)"
    proof (intro ballI impI conjI allI)
      fix gd b assume "gd \<in> set gs" "live (revoked m) gd" "agent_reservation gd = Some (b, gen)"
      from held_generation [OF parts(2) this] Some parts(3) show "b = a" unfolding generations_ok_def by blast
    next
      fix gd h assume gd: "gd \<in> set gs" "live (revoked m) gd" "agent_reservation gd = Some (a, h)"
      from held_generation [OF parts(2) this] Some show "h = gen" by simp
      from gd parts(2) obtain k where "tpath (par m) (root_id m) k (guard_cgroups gd)" "a \<in> set (mem m k)"
        unfolding guards_ok_def by blast
      moreover from this(2) a parts(1) have "k = i" unfolding members_ok_def by blast
      ultimately show "set (guard_cgroups gd) = set ps" using tpath_unique [OF path] by auto
    qed
    from revoke_counts [OF this] Some show ?thesis by (simp add: rvk')
  qed
  then show "covering (revoked m) gs j = covering rvk' gs j + (if j \<in> set ps then held_by (revoked m) gs a else 0)"
    and "held_by rvk' gs b = (if b = a then 0 else held_by (revoked m) gs b)" by simp_all
qed

definition revoke :: "CgroupManager \<Rightarrow> agent_id \<Rightarrow> CgroupManager" where
  "revoke m a = m\<lparr>tool_call_generations := AList.delete a (tool_call_generations m),
     revoked := (case map_of (tool_call_generations m) a of Some gen \<Rightarrow> gen # revoked m | None \<Rightarrow> revoked m),
     active_tool_calls_by_agent := AList.delete a (active_tool_calls_by_agent m)\<rparr>"

lemma delete_missing: "map_of xs k = None \<Longrightarrow> AList.delete k xs = xs"
  by (induction xs) (auto simp: AList.delete_eq split: if_splits)

lemma force_cases:
  assumes tree: "tree_ok m" and r: "force_remove_agent m i a = (res, m')"
  obtains (unchanged) e where "res = Inl e" and "m' = m"
  | (revoked) g and hs :: "Cgroup list" and k active m3 where "grp m i = Some g" and "position (\<lambda>x. x = a) (cg_members g) = Some k"
      and "tpath (par m) (root_id m) i (map cg_id hs)"
      and "active = (case map_of (active_tool_calls_by_agent m) a of Some n \<Rightarrow> n | None \<Rightarrow> 0)"
      and "m3 = (if active > 0 then fold (\<lambda>i. upd_group i (sub_calls active)) (map cg_id hs) (revoke m a) else revoke m a)"
      and "m' = upd_group i (\<lambda>g. set_members (swap_remove k (cg_members g)) g) m3" and "res = Inr ()"
proof (cases "hierarchy_unlocked m i")
  case (Inl e)
  with r unchanged show thesis by (auto simp: force_remove_agent_def)
next
  case (Inr hs)
  obtain g where g: "grp m i = Some g" "hs \<noteq> []" "last hs = g"
    and path: "tpath (par m) (root_id m) i (map cg_id hs)" "distinct (map cg_id hs)"
    by (rule hierarchy_Inr [OF tree Inr])
  show thesis
  proof (cases "a \<in> set (cg_members g)")
    case False
    with r g Inr unchanged show thesis by (auto simp: force_remove_agent_def)
  next
    case True
    then obtain k where k: "position (\<lambda>x. x = a) (cg_members g) = Some k"
      by (cases "position (\<lambda>x. x = a) (cg_members g)") (auto simp: position_None_iff)
    define active where "active = (case map_of (active_tool_calls_by_agent m) a of Some n \<Rightarrow> n | None \<Rightarrow> 0)"
    define m3 where "m3 = (if active > 0 then fold (\<lambda>i. upd_group i (sub_calls active)) (map cg_id hs) (revoke m a) else revoke m a)"
    have "map_of (groups (revoke m a)) i = Some g" using g(1) by (simp add: revoke_def)
    then have "map_option cg_members (grp m3 i) = Some (cg_members g)"
      using path(2) by (simp add: m3_def fold_upd_grp)
    then obtain g3 where g3: "grp m3 i = Some g3" "cg_members g3 = cg_members g" by auto
    have rev: "(case map_of (tool_call_generations m) a of
             Some gen \<Rightarrow> m\<lparr>tool_call_generations := AList.delete a (tool_call_generations m), revoked := gen # revoked m\<rparr>
           | None \<Rightarrow> m)\<lparr>active_tool_calls_by_agent := AList.delete a (active_tool_calls_by_agent m)\<rparr> = revoke m a"
      "active_tool_calls_by_agent (case map_of (tool_call_generations m) a of
             Some gen \<Rightarrow> m\<lparr>tool_call_generations := AList.delete a (tool_call_generations m), revoked := gen # revoked m\<rparr>
           | None \<Rightarrow> m) = active_tool_calls_by_agent m"
      by (simp_all add: revoke_def delete_missing split: option.split)
    have "force_remove_agent m i a =
      (if hs = [] then (Inl (HierarchyDoesNotReachRoot i), m)
       else if a \<notin> set (cg_members (last hs)) then (Inl (AgentNotMember i a), m)
       else case map_of (groups m3) i of
         None \<Rightarrow> (Inl (GroupNotFound i), m3)
       | Some g \<Rightarrow> (case position (\<lambda>x. x = a) (cg_members g) of
             None \<Rightarrow> (Inl (AgentNotMember i a), m3)
           | Some index \<Rightarrow> (Inr (), upd_group i (\<lambda>g. set_members (swap_remove index (cg_members g)) g) m3)))"
      unfolding force_remove_agent_def Inr Let_def rev m3_def active_def by simp
    then have "force_remove_agent m i a = (Inr (), upd_group i (\<lambda>g. set_members (swap_remove k (cg_members g)) g) m3)"
      using g True k g3 by simp
    with r revoked [OF g(1) k path(1) active_def m3_def] show thesis by simp
  qed
qed

lemma revoke_sel [simp]:
  "groups (revoke m a) = groups m" "scope_index (revoke m a) = scope_index m" "root_id (revoke m a) = root_id m"
  "next_cgroup_id (revoke m a) = next_cgroup_id m" "next_generation (revoke m a) = next_generation m"
  "map_of (tool_call_generations (revoke m a)) = (map_of (tool_call_generations m))(a := None)"
  "map_of (active_tool_calls_by_agent (revoke m a)) = (map_of (active_tool_calls_by_agent m))(a := None)"
  "revoked (revoke m a) = (case map_of (tool_call_generations m) a of Some gen \<Rightarrow> gen # revoked m | None \<Rightarrow> revoked m)"
  by (simp_all add: revoke_def map_of_delete fun_eq_iff)

lemma revoke_generations: "generations_ok m \<Longrightarrow> generations_ok (revoke m a)"
  by (auto simp: generations_ok_def split: option.splits)

lemma revoke_live: "live (revoked (revoke m a)) gd \<Longrightarrow> live (revoked m) gd"
  by (auto simp: live_cases split: option.splits)

lemma revoke_guards:
  assumes ok: "calls_ok (m, gs)" and held: "held_by (revoked (revoke m a)) gs a = 0"
    and m': "par m' = par m" "root_id m' = root_id m" "next_generation m' = next_generation m"
      "revoked m' = revoked (revoke m a)" "tool_call_generations m' = tool_call_generations (revoke m a)"
      "\<And>j. set (mem m' j) = (if j = i then set (mem m i) - {a} else set (mem m j))"
  shows "guards_ok m' gs"
  unfolding guards_ok_def m'(1-5)
proof (intro conjI ballI impI allI)
  from ok have g: "guards_ok m gs" by (simp add: calls_parts)
  then show "length gs < 2 ^ 32" by (simp add: guards_ok_def)
  fix gd assume gd: "gd \<in> set gs"
  show "gen < next_generation m" if "agent_reservation gd = Some (b, gen)" for b gen
    using g gd that by (auto simp: guards_ok_def)
  assume live: "live (revoked (revoke m a)) gd"
  from g gd revoke_live [OF live] obtain j where j: "tpath (par m) (root_id m) j (guard_cgroups gd)"
    "\<And>b gen. agent_reservation gd = Some (b, gen) \<Longrightarrow> map_of (tool_call_generations m) b = Some gen \<and> b \<in> set (mem m j)"
    unfolding guards_ok_def by blast
  have "b \<noteq> a" if "agent_reservation gd = Some (b, gen)" for b gen
    using held gd live that by (auto simp: held_by_0_iff)
  with j(2) have "map_of (tool_call_generations (revoke m a)) b = Some gen \<and> b \<in> set (mem m' j)"
    if "agent_reservation gd = Some (b, gen)" for b gen
    using that by (auto simp: m'(6))
  with j(1) show "\<exists>i. tpath (par m) (root_id m) i (guard_cgroups gd) \<and>
      (\<forall>a' gen. agent_reservation gd = Some (a', gen) \<longrightarrow>
        map_of (tool_call_generations (revoke m a)) a' = Some gen \<and> a' \<in> set (mem m' i))" by blast
qed

lemma force_ok:
  assumes ok: "calls_ok (m, gs)" and r: "force_remove_agent m i a = (res, m')"
  shows "calls_ok (m', gs)"
proof -
  from ok have parts: "tree_ok m" "members_ok m" "slots_ok m (revoked m) gs" "agents_ok m (revoked m) gs"
      "guards_ok m gs" "generations_ok m" by (simp_all add: calls_parts)
  from parts(1) r show ?thesis
  proof (cases rule: force_cases)
    case unchanged
    with ok show ?thesis by simp
  next
    case (revoked g hs k active m3)
    let ?r = "revoke m a" and ?rvk = "revoked (revoke m a)"
    have ps: "distinct (map cg_id hs)" by (rule path_distinct [OF parts(1) revoked(3)])
    from revoked(1,2) have a: "a \<in> set (mem m i)" by (auto simp: mem_def position_Some_iff)
    note counts = revoke_agent_counts [OF ok revoked(3) a, of ?rvk, OF revoke_sel(8)]
    have active: "unat active = held_by (revoked m) gs a"
      using spec [OF parts(4) [unfolded agents_ok_def], of a] unfolding revoked(4) by (auto split: option.splits)
    note gr = groups_frame [OF revoke_sel(1) [of m a]]
    have r_tree: "tree_ok ?r" using parts(1) tree_ok_frame [OF gr(1)] by simp
    note fr = fold_frame [OF r_tree gr(5) [OF parts(2)] ps, of "sub_calls active", simplified]
    have sel: "Cgroups.revoked m3 = ?rvk" "scope_index m3 = scope_index m" "root_id m3 = root_id m"
      "tool_call_generations m3 = tool_call_generations ?r" "next_generation m3 = next_generation m"
      "active_tool_calls_by_agent m3 = active_tool_calls_by_agent ?r"
      unfolding revoked(5) by simp_all
    have m3: "tree_ok m3" "members_ok m3" "mem m3 = mem m" "par m3 = par m"
      using fr r_tree gr parts(2) unfolding revoked(5) by simp_all
    have slots: "slots_ok m3 ?rvk gs"
    proof (cases "active > 0")
      case True
      with slots_revoke [OF gr(6) [OF parts(3)] ps, of ?rvk active] counts(1) active show ?thesis
        unfolding revoked(5) by simp
    next
      case False
      then have "unat active = 0" by (simp add: unat_eq_0 word_neq_0_conv [symmetric])
      with counts(1) active False gr(6) [OF parts(3)] show ?thesis unfolding revoked(5) by (simp add: slots_ok_def)
    qed
    have agents: "agents_ok m3 ?rvk gs"
      using parts(4) counts(2) unfolding agents_ok_def sel(6) by simp
    have g3: "grp m3 i \<noteq> None" "\<And>h. grp m3 i = Some h \<Longrightarrow> cg_members h = cg_members g"
      using revoked(1) ps unfolding revoked(5) by (auto simp: fold_upd_grp split: if_splits)
    then obtain h where h: "grp m3 i = Some h" "cg_members h = cg_members g" by auto
    have pos: "position (\<lambda>x. x = a) (cg_members h) = Some k" using revoked(2) h by simp
    let ?m = "upd_group i (\<lambda>g. set_members (swap_remove k (cg_members g)) g) m3"
    have n: "nodes ?m = nodes m3" by (rule nodes_upd_group) simp
    note rm = members_remove [OF m3(2) h(1) pos]
    have "tree_ok ?m" using m3(1) tree_ok_frame [OF n] by simp
    moreover have "slots_ok ?m ?rvk gs" using slots by (rule slots_frame) (rule act_upd_group, simp)
    moreover have "agents_ok ?m ?rvk gs" using agents by (rule agents_frame) simp
    moreover have "generations_ok ?m" using revoke_generations [OF parts(6)] by (rule generations_frame) (simp_all add: sel)
    moreover have "held_by ?rvk gs a = 0" using counts(2) [of a] by simp
    then have "guards_ok ?m gs" by (rule revoke_guards [OF ok, of a ?m i]) (simp_all add: rm sel m3 par_eq [OF n])
    ultimately show ?thesis using rm(1) by (simp add: revoked(6) calls_parts sel)
  qed
qed

section \<open>Every reachable state is consistent\<close>

lemma manager_new_ok: "unat first < 2 ^ 64 - 1 \<Longrightarrow> calls_ok (manager_new first, [])"
proof -
  assume first: "unat first < 2 ^ 64 - 1"
  have "unat (first + 1) = Suc (unat first)" using first by (subst unat_add_bounded) auto
  then have "tree_ok (manager_new first)"
    unfolding tree_ok_def
    by (intro treeI) (auto simp: manager_new_def nodes_def shape_def validate_scope_def split: if_splits)
  moreover have "members_ok (manager_new first)"
    by (auto simp: members_ok_def manager_new_def mem_def group_ok_def limits_default_def usage_default_def member_count_def
        split: if_splits)
  moreover have "counters_ok (manager_new first) []"
    by (auto simp: counters_ok_def manager_new_def act_def covering_def held_by_def limits_default_def usage_default_def
        split: if_splits)
  ultimately show ?thesis by (simp add: calls_ok_def guards_ok_def generations_ok_def manager_new_def)
qed

lemma cstep_ok: "cstep s s' \<Longrightarrow> calls_ok s \<Longrightarrow> calls_ok s'"
proof (induction rule: cstep.induct)
  case (acquire gs m i gd m')
  then show ?case using acquire_ok [of m gs i "Inr gd" m'] by simp
next
  case (acquire_fails gs m i e m')
  then show ?case using acquire_ok [of m gs i "Inl e" m'] by simp
next
  case (reserve gs m i a gd m')
  then show ?case using reserve_ok [of m gs i a "Inr gd" m'] by simp
next
  case (reserve_fails gs m i a e m')
  then show ?case using reserve_ok [of m gs i a "Inl e" m'] by simp
qed (rule create_ok, assumption+, rule add_ok, assumption+, rule remove_ok, assumption+, rule force_ok, assumption+,
    rule move_ok, assumption+, rule leaf_ok, assumption+, rule limits_ok, assumption+, rule drop_ok)

lemma calls_reachable_ok: "calls_reachable s \<Longrightarrow> calls_ok s"
  by (induction rule: calls_reachable.induct) (auto intro: manager_new_ok cstep_ok)

lemma acquire_slots_frame: "active_tool_calls_by_agent (snd (acquire_slots m hs acq)) = active_tool_calls_by_agent m"
  by (induction hs arbitrary: m acq) (simp_all add: rollback_tool_calls_def split: option.split)

lemma refused_agents:
  assumes "calls_ok (m, gs)" and "acquire_tool_call_for_agent m i a = (Inl e, m')"
  shows "active_tool_calls_by_agent m' = active_tool_calls_by_agent m"
  using assms(2) acquire_slots_frame [of m _ "[]"]
  by (auto simp: acquire_tool_call_for_agent_def acquire_tool_call_for_hierarchy_def
      split: sum.splits if_splits prod.splits) (metis snd_conv)+

lemma force_Inr:
  assumes tree: "tree_ok m" and r: "force_remove_agent m i a = (Inr (), m')"
  obtains g k where "grp m i = Some g" and "position (\<lambda>x. x = a) (cg_members g) = Some k"
    and "\<exists>ps. tpath (par m) (root_id m) i ps" and "revoked m' = revoked (revoke m a)"
  using tree r
proof (cases rule: force_cases)
  case (revoked g hs k active m3)
  then show thesis by (intro that [of g k]) auto
qed simp

lemma tpath_links: "tpath P root i ps \<Longrightarrow> Suc k < length ps \<Longrightarrow> P (ps ! Suc k) = Some (ps ! k)"
proof (induction rule: tpath.induct)
  case (step i p ps)
  from tpath_last [OF step.hyps(3)] have "ps \<noteq> []" "last ps = p" by simp_all
  moreover have "k = length ps - 1" if "\<not> Suc k < length ps" using that step.prems by simp
  ultimately show ?case using step by (cases "Suc k < length ps") (auto simp: nth_append last_conv_nth)
qed simp


lemma slots_at:
  assumes "slots_ok m rvk gs" and "grp m i = Some g"
  shows "unat (active_tool_calls (cg_usage g)) = covering rvk gs i"
    and "max_concurrent_tool_calls (cg_limits g) > 0 \<Longrightarrow> active_tool_calls (cg_usage g) \<le> max_concurrent_tool_calls (cg_limits g)"
  using assms(1) [unfolded slots_ok_def, rule_format, of i] assms(2) by (simp_all add: act_def)

lemma move_members:
  assumes ok: "calls_ok (m, gs)" and r: "try_move_agent m i j a = Inr m'"
  shows "a \<in> set (mem m' k) \<longleftrightarrow> k = j"
proof -
  from ok have tree: "tree_ok m" by (simp add: calls_parts)
  from move_cases [OF r] obtain hj where hj: "hierarchy_unlocked m j = Inr hj" by blast
  obtain h where h: "grp m j = Some h" "last hj = h" by (rule hierarchy_Inr [OF tree hj])
  from move_cases [OF r] have "a \<in> set (mem m' j)"
    using hj h by (auto simp: mem_def)
  moreover have "members_ok m'" using move_ok [OF ok r] by (simp add: calls_parts)
  ultimately show ?thesis unfolding members_ok_def by blast
qed

section \<open>Guarantees\<close>

text \<open>C3: In every state an interleaving of the control-group operations can reach, a group's
  active-call counter is exactly the number of live guards whose path goes through the group,
  and a configured concurrency limit is never exceeded.\<close>

theorem concurrency_limits_hold:
  assumes "calls_reachable (m, gs)" and "map_of (groups m) i = Some g"
  shows "unat (active_tool_calls (cg_usage g)) = covering (revoked m) gs i \<and>
    (max_concurrent_tool_calls (cg_limits g) > 0 \<longrightarrow>
       covering (revoked m) gs i \<le> unat (max_concurrent_tool_calls (cg_limits g))) \<and>
    (max_agents (cg_limits g) > 0 \<longrightarrow> agent_count (cg_usage g) \<le> max_agents (cg_limits g))"
proof -
  from calls_reachable_ok [OF assms(1)] have s: "slots_ok m (revoked m) gs" and "group_ok g"
    using assms(2) by (simp_all add: calls_parts members_ok_def)
  with slots_at [OF s assms(2)] show ?thesis by (auto simp: word_le_nat_alt group_ok_def)
qed

text \<open>A limited group below the root, with one member that holds the only slot.\<close>

definition demo_limits :: CgroupLimits where
  "demo_limits = limits_default\<lparr>max_concurrent_tool_calls := 1, max_agents := 1\<rparr>"

definition demo_created :: CgroupManager where
  "demo_created = snd (create_scoped (manager_new 1) ''team'' 1 ''/team'' demo_limits)"

definition demo_joined :: CgroupManager where
  "demo_joined = (case add_agent demo_created 2 7 of Inr m \<Rightarrow> m | Inl _ \<Rightarrow> demo_created)"

definition demo_busy :: CgroupManager where
  "demo_busy = snd (acquire_tool_call_for_agent demo_joined 2 7)"

definition demo_guard :: ToolCallGuard where
  "demo_guard = \<lparr>guard_cgroups = [1, 2], agent_reservation = Some (7, 0)\<rparr>"

lemmas demo_defs = demo_limits_def demo_created_def demo_joined_def demo_busy_def demo_guard_def create_scoped_def
  manager_new_def hierarchy_unlocked_def validate_scope_def limits_default_def usage_default_def Let_def upd_group_def
  add_agent_def acquire_tool_call_for_agent_def acquire_tool_call_for_hierarchy_def reserve_agent_def add_call_def
  set_members_def sat_add_def member_count_def

lemma demo_joined_reachable: "calls_reachable (demo_joined, [])"
proof -
  have "calls_reachable (manager_new 1, [])" by (rule calls_reachable.start) simp
  moreover have "cstep (manager_new 1, []) (demo_created, [])"
    by (rule cstep.create [of _ "''team''" 1 "''/team''" demo_limits "Inr 2"]) (simp_all add: demo_defs)
  moreover have "cstep (demo_created, []) (demo_joined, [])"
    by (rule cstep.add [of _ 7 2]) (auto simp: demo_defs split: if_splits)
  ultimately show ?thesis by (blast intro: calls_reachable.step)
qed

lemma demo_reserve: "acquire_tool_call_for_agent demo_joined 2 7 = (Inr demo_guard, demo_busy)"
  by (simp add: demo_defs)

lemma demo_busy_reachable: "calls_reachable (demo_busy, [demo_guard])"
  by (rule calls_reachable.step [OF demo_joined_reachable]) (rule cstep.reserve [OF _ demo_reserve], simp)

definition demo_group :: "u32 \<Rightarrow> Cgroup" where
  "demo_group n = \<lparr>cg_id = 2, cg_name = ''team'', cg_parent = Some 1, cg_children = [], cg_limits = demo_limits,
     cg_usage = \<lparr>tokens_this_min = 0, active_tool_calls = n, context_tokens = 0, agent_count = 1\<rparr>, cg_members = [7],
     quota_scope = ''/team''\<rparr>"

lemma demo_groups: "map_of (groups demo_busy) 2 = Some (demo_group 1)" "map_of (groups demo_joined) 2 = Some (demo_group 0)"
  by (simp_all add: demo_defs demo_group_def)

theorem concurrency_limits_hold_witness:
  "calls_reachable (demo_busy, [demo_guard]) \<and> map_of (groups demo_busy) 2 = Some (demo_group 1) \<and>
   covering (revoked demo_busy) [demo_guard] 2 = 1"
  using concurrency_limits_hold [OF demo_busy_reachable demo_groups(1)] demo_busy_reachable demo_groups(1)
  by (simp add: demo_group_def)

text \<open>C25: A reservation that is refused leaves every group exactly as it was: the slots taken on
  the way down are all given back.\<close>

theorem refused_reservation_leaves_no_trace:
  assumes "calls_reachable (m, gs)" and "length gs < 2 ^ 32 - 1"
    and "acquire_tool_call_for_agent m i a = (Inl e, m')"
  shows "map_of (groups m') = map_of (groups m) \<and> active_tool_calls_by_agent m' = active_tool_calls_by_agent m"
proof -
  note ok = calls_reachable_ok [OF assms(1)]
  have "grp m' = grp m" using reserve_ok [OF ok assms(2,3)] by simp
  moreover have "active_tool_calls_by_agent m' = active_tool_calls_by_agent m"
    using refused_agents [OF ok assms(3)] .
  ultimately show ?thesis by simp
qed

lemma demo_refused: "acquire_tool_call_for_agent demo_busy 2 7 = (Inl (ToolCallLimit 2 ''/team''), demo_busy)"
  by (simp add: demo_defs rollback_tool_calls_def sub_calls_def sat_sub_def)

theorem refused_reservation_leaves_no_trace_witness:
  "acquire_tool_call_for_agent demo_busy 2 7 = (Inl (ToolCallLimit 2 ''/team''), demo_busy) \<and>
   map_of (groups demo_busy) = map_of (groups demo_busy)"
  using refused_reservation_leaves_no_trace [OF demo_busy_reachable _ demo_refused] demo_refused by simp

text \<open>C10: A forced removal ends the agent's reservations at once: none of its guards counts any
  more, and dropping one of them later changes nothing, so no slot is given back twice.\<close>

theorem forced_removal_revokes_guards:
  assumes reach: "calls_reachable (m, gs)" and r: "force_remove_agent m i a = (Inr (), m')"
    and gd: "gd \<in> set gs" "agent_reservation gd = Some (a, gen)"
  shows "held_by (revoked m') gs a = 0 \<and> release_tool_call m' gd = m'"
proof -
  note ok = calls_reachable_ok [OF reach]
  from ok have parts: "tree_ok m" "guards_ok m gs" by (simp_all add: calls_parts)
  obtain g k where g: "grp m i = Some g" "position (\<lambda>x. x = a) (cg_members g) = Some k"
    and path: "\<exists>ps. tpath (par m) (root_id m) i ps" and rv: "revoked m' = revoked (revoke m a)"
    by (rule force_Inr [OF parts(1) r])
  from path obtain ps where "tpath (par m) (root_id m) i ps" by blast
  moreover have "a \<in> set (mem m i)" using g by (auto simp: mem_def position_Some_iff)
  ultimately have "held_by (revoked m') gs a = 0"
    using revoke_agent_counts(2) [OF ok _ _ refl] unfolding rv revoke_sel(8) by simp
  moreover have "gen \<in> set (revoked m')"
  proof (cases "live (revoked m) gd")
    case True
    from held_generation [OF parts(2) gd(1) True gd(2)] show ?thesis unfolding rv by simp
  next
    case False
    with gd(2) show ?thesis unfolding rv by (auto simp: live_cases split: option.split)
  qed
  ultimately show ?thesis using gd(2) by (simp add: release_tool_call_def)
qed

theorem forced_removal_revokes_guards_witness:
  "\<exists>m'. force_remove_agent demo_busy 2 7 = (Inr (), m') \<and> release_tool_call m' demo_guard = m'"
proof -
  have "force_remove_agent demo_busy 2 7 = (Inr (), snd (force_remove_agent demo_busy 2 7))"
    by (simp add: demo_defs force_remove_agent_def)
  from this forced_removal_revokes_guards [OF demo_busy_reachable this, of demo_guard 0] show ?thesis
    by (intro exI [of _ "snd (force_remove_agent demo_busy 2 7)"]) (simp add: demo_guard_def)
qed

text \<open>C26: Every group of a reachable manager has its whole ancestry: the walk to the root ends,
  reports neither a cycle nor a missing group, and returns the groups from the root to the
  group itself, each the parent of the next.\<close>

theorem hierarchy_reaches_root:
  assumes "calls_reachable (m, gs)" and "map_of (groups m) i = Some g"
  shows "\<exists>hs. hierarchy_unlocked m i = Inr hs \<and> hs \<noteq> [] \<and> cg_id (hd hs) = root_id m \<and> last hs = g \<and>
    distinct (map cg_id hs) \<and> (\<forall>k. Suc k < length hs \<longrightarrow> cg_parent (hs ! Suc k) = Some (cg_id (hs ! k)))"
proof -
  from calls_reachable_ok [OF assms(1)] have tree: "tree_ok m" by (simp add: calls_parts)
  from hierarchy_path [OF this assms(2)] obtain hs where hs: "hierarchy_unlocked m i = Inr hs" "hs \<noteq> []" "last hs = g"
    "tpath (par m) (root_id m) i (map cg_id hs)" "\<forall>h\<in>set hs. grp m (cg_id h) = Some h" by blast
  have "cg_parent (hs ! Suc k) = Some (cg_id (hs ! k))" if "Suc k < length hs" for k
  proof -
    have "par m (cg_id (hs ! Suc k)) = Some (cg_id (hs ! k))" using tpath_links [OF hs(4), of k] that by simp
    then show ?thesis using hs(5) that by (simp add: par_def)
  qed
  with hs tpath_last [OF hs(4)] path_distinct [OF tree hs(4)] show ?thesis by (auto simp: hd_map)
qed

theorem hierarchy_reaches_root_witness:
  "calls_reachable (demo_busy, [demo_guard]) \<and>
   (\<exists>hs. hierarchy_unlocked demo_busy 2 = Inr hs \<and> cg_id (hd hs) = root_id demo_busy \<and> last hs = demo_group 1)"
  using hierarchy_reaches_root [OF demo_busy_reachable demo_groups(1)] demo_busy_reachable by blast




text \<open>C28: Moving an agent never panics: the two lookups the code expects to succeed after its
  checks do succeed, and after a move the agent is a member of the destination alone.\<close>

theorem move_never_panics:
  assumes reach: "calls_reachable (m, gs)"
  shows "try_move_agent m i j a \<noteq> Inl Panic \<and>
    (\<forall>m'. try_move_agent m i j a = Inr m' \<longrightarrow> (\<forall>k. a \<in> set (mem m' k) \<longleftrightarrow> k = j))"
proof -
  note ok = calls_reachable_ok [OF reach]
  from ok have tree: "tree_ok m" by (simp add: calls_parts)
  have "try_move_agent m i j a \<noteq> Inl Panic"
  proof (cases "hierarchy_unlocked m i")
    case (Inr hs)
    obtain g where g: "grp m i = Some g" "last hs = g" by (rule hierarchy_Inr [OF tree Inr])
    show ?thesis
    proof (cases "hierarchy_unlocked m j")
      case (Inr hs')
      obtain h where "grp m j = Some h" by (rule hierarchy_Inr [OF tree Inr])
      with g show ?thesis
        using \<open>hierarchy_unlocked m i = Inr hs\<close> Inr position_None_iff [of "\<lambda>x. x = a" "cg_members g"]
        by (auto simp: try_move_agent_def Let_def expect_def split: option.splits if_splits)
    qed (simp add: try_move_agent_def Inr)
  qed (simp add: try_move_agent_def)
  moreover have "a \<in> set (mem m' k) \<longleftrightarrow> k = j" if "try_move_agent m i j a = Inr m'" for m' k
    using move_members [OF ok that] .
  ultimately show ?thesis by blast
qed

theorem move_never_panics_witness: "try_move_agent demo_joined 2 1 7 \<noteq> Inl Panic"
  using move_never_panics [OF demo_joined_reachable] by blast

end
