(* ===== verification/Permissions.thy ===== *)
theory Permissions
  imports First_Match Resources "HOL-Library.Sublist"
begin

text \<open>
  The permission system (\<open>crates/kernel/src/permissions.rs\<close>): named profiles of ordered rules,
  the predefined profiles, the access decision and the append-only audit log. Time stamps of
  the log are the readings of the clock, an argument of \<open>log_action\<close>.
\<close>

section \<open>Profiles\<close>

datatype AccessDecision = Allowed | Denied | RequiresApproval

record PermissionRule =
  perm_resource :: ResourceType
  perm_operations :: "string list"
  perm_targets :: "string list option"
  perm_decision :: AccessDecision

record PermissionProfile =
  profile_id :: string
  profile_name :: string
  profile_rules :: "PermissionRule list"

datatype ActionOutcome = Success | Failure | Pending | Timeout

record AuditEntry =
  entry_time :: int
  entry_agent :: uuid
  entry_action :: string
  entry_resource :: string
  entry_decision :: AccessDecision
  entry_outcome :: ActionOutcome

record AuditFilter =
  filter_agent :: "uuid option"
  filter_resource :: "string option"
  filter_decision :: "AccessDecision option"
  filter_from :: "int option"
  filter_to :: "int option"

record PermissionManager =
  profiles :: "(string \<times> PermissionProfile) list"
  agent_profiles :: "(uuid \<times> string) list"
  audit_log :: "AuditEntry list"

definition HIGH_RISK_OPS :: "string list" where
  "HIGH_RISK_OPS = [''delete'', ''execute'', ''install'', ''uninstall'', ''format'', ''sudo'']"

definition allow_rule :: "ResourceType \<Rightarrow> string list \<Rightarrow> PermissionRule" where
  "allow_rule r ops = \<lparr>perm_resource = r, perm_operations = ops, perm_targets = None, perm_decision = Allowed\<rparr>"

definition ipc_operations :: "string list" where
  "ipc_operations = [''send'', ''receive'', ''stat'', ''delegate'', ''delegation_status'', ''complete_delegation'', ''discover'']"

definition read_only_profile :: PermissionProfile where
  "read_only_profile = \<lparr>profile_id = ''read-only'', profile_name = ''Read Only'', profile_rules =
     [allow_rule Filesystem [''read'', ''list''], allow_rule Network [''get'']]\<rparr>"

definition standard_profile :: PermissionProfile where
  "standard_profile = \<lparr>profile_id = ''standard'', profile_name = ''Standard'', profile_rules =
     [allow_rule Filesystem [''read'', ''write'', ''create'', ''create_dir'', ''edit'', ''list''],
      allow_rule Network [''get'', ''post''], allow_rule Application [''launch''], allow_rule Ipc ipc_operations]\<rparr>"

definition elevated_profile :: PermissionProfile where
  "elevated_profile = \<lparr>profile_id = ''elevated'', profile_name = ''Elevated'', profile_rules =
     [allow_rule Filesystem [''read'', ''write'', ''create'', ''create_dir'', ''edit'', ''list'', ''delete''],
      allow_rule Network [''get'', ''post'', ''put'', ''delete''], allow_rule Application [''launch''],
      allow_rule Browser [''navigate'', ''click'', ''type'', ''read''], allow_rule Ipc ipc_operations]\<rparr>"

definition memory_grants :: "(string \<times> string list) list" where
  "memory_grants =
     [(''read-only'', [''query'', ''stat'', ''kv_get'', ''kv_list'', ''kv_dir_stat'', ''kv_stat'']),
      (''standard'', [''store'', ''query'', ''stat'', ''kv_get'', ''kv_put'', ''kv_list'', ''kv_dir_stat'', ''kv_stat'']),
      (''elevated'', [''store'', ''query'', ''stat'', ''kv_get'', ''kv_put'', ''kv_list'', ''kv_dir_stat'', ''kv_stat''])]"

text \<open>The \<open>expect\<close> on a missing profile is the panic.\<close>

fun push_memory_rules ::
    "(string \<times> string list) list \<Rightarrow> (string \<times> PermissionProfile) list
      \<Rightarrow> unit failure + (string \<times> PermissionProfile) list" where
  "push_memory_rules [] ps = Inr ps"
| "push_memory_rules ((p, ops) # rest) ps = bind_res (expect (map_of ps p)) (\<lambda>_.
     push_memory_rules rest
       (AList.map_entry p (\<lambda>pr. pr\<lparr>profile_rules := profile_rules pr @ [allow_rule Memory ops]\<rparr>) ps))"

definition register_predefined_profiles ::
    "(string \<times> PermissionProfile) list \<Rightarrow> unit failure + (string \<times> PermissionProfile) list" where
  "register_predefined_profiles ps0 =
     (let ps1 = AList.update ''read-only'' read_only_profile ps0;
          ps2 = AList.update ''standard'' standard_profile ps1;
          ps3 = AList.update ''elevated'' elevated_profile ps2 in
      bind_res (push_memory_rules memory_grants ps3) (\<lambda>ps4.
        Inr (AList.update ''full-access''
          \<lparr>profile_id = ''full-access'', profile_name = ''Full Access'', profile_rules = []\<rparr> ps4)))"

definition permissions_new :: "unit failure + PermissionManager" where
  "permissions_new = bind_res (register_predefined_profiles []) (\<lambda>ps.
     Inr \<lparr>profiles = ps, agent_profiles = [], audit_log = []\<rparr>)"

section \<open>Operations\<close>

definition purge_agent :: "PermissionManager \<Rightarrow> uuid \<Rightarrow> PermissionManager" where
  "purge_agent m a = m\<lparr>agent_profiles := AList.delete a (agent_profiles m)\<rparr>"

definition profile_for_agent :: "PermissionManager \<Rightarrow> uuid \<Rightarrow> string option" where
  "profile_for_agent m a = map_of (agent_profiles m) a"

definition with_clone_profile :: "PermissionManager \<Rightarrow> uuid \<Rightarrow> string \<Rightarrow> (unit \<Rightarrow> 'a) \<Rightarrow> string + 'a" where
  "with_clone_profile m a expected commit =
     bind_res (ok_or (map_of (agent_profiles m) a) ''clone parent profile was revoked'') (\<lambda>p.
       if p \<noteq> expected then Inl ''clone parent profile changed during creation'' else Inr (commit ()))"

definition matches_glob :: "string \<Rightarrow> string \<Rightarrow> bool" where
  "matches_glob pattern target =
     (if pattern = ''*'' then True
      else if pattern \<noteq> [] \<and> last pattern = CHR ''*'' then prefix (butlast pattern) target
      else if pattern \<noteq> [] \<and> hd pattern = CHR ''*'' then suffix (tl pattern) target
      else pattern = target)"

definition equivalent_operation :: "ResourceType \<Rightarrow> string \<Rightarrow> string" where
  "equivalent_operation resource operation =
     (if resource = Filesystem \<and> operation \<in> {''stat'', ''read_bytes''} then ''read''
      else if resource = Filesystem \<and> operation = ''write_bytes'' then ''write''
      else operation)"

type_synonym access_query = "ResourceType \<times> string \<times> string option"

definition perm_hit :: "PermissionRule \<Rightarrow> access_query \<Rightarrow> bool" where
  "perm_hit rule query = (case query of (resource, operation, target) \<Rightarrow>
     perm_resource rule = resource \<and>
     (\<exists>op\<in>set (perm_operations rule). op = operation \<or> op = equivalent_operation resource operation \<or> op = ''*'') \<and>
     (case (perm_targets rule, target) of
        (Some _, None) \<Rightarrow> False
      | (Some patterns, Some t) \<Rightarrow> \<exists>p\<in>set patterns. matches_glob p t
      | _ \<Rightarrow> True))"

fun find_matching_rule :: "PermissionRule list \<Rightarrow> access_query \<Rightarrow> AccessDecision option" where
  "find_matching_rule [] query = None"
| "find_matching_rule (rule # rules) query =
     (if perm_hit rule query then Some (perm_decision rule) else find_matching_rule rules query)"

definition check_access ::
    "PermissionManager \<Rightarrow> uuid \<Rightarrow> ResourceType \<Rightarrow> string \<Rightarrow> string option \<Rightarrow> AccessDecision" where
  "check_access m a resource operation target =
     (case map_of (agent_profiles m) a of
        None \<Rightarrow> Denied
      | Some pid \<Rightarrow>
          if pid = ''full-access'' then Allowed
          else if operation \<in> set HIGH_RISK_OPS then RequiresApproval
          else case map_of (profiles m) pid of
            None \<Rightarrow> Denied
          | Some profile \<Rightarrow>
              (case find_matching_rule (profile_rules profile) (resource, operation, target) of
                 Some d \<Rightarrow> d | None \<Rightarrow> Denied))"

definition request_elevation :: "PermissionManager \<Rightarrow> uuid \<Rightarrow> string \<Rightarrow> string + AccessDecision" where
  "request_elevation m a action = Inr RequiresApproval"

definition assign_profile :: "PermissionManager \<Rightarrow> uuid \<Rightarrow> string \<Rightarrow> PermissionManager" where
  "assign_profile m a pid = m\<lparr>agent_profiles := AList.update a pid (agent_profiles m)\<rparr>"

definition filter_admits :: "AuditFilter \<Rightarrow> AuditEntry \<Rightarrow> bool" where
  "filter_admits f e \<longleftrightarrow>
     (case filter_agent f of Some a \<Rightarrow> entry_agent e = a | None \<Rightarrow> True) \<and>
     (case filter_resource f of Some r \<Rightarrow> entry_resource e = r | None \<Rightarrow> True) \<and>
     (case filter_decision f of Some d \<Rightarrow> entry_decision e = d | None \<Rightarrow> True) \<and>
     (case filter_from f of Some t \<Rightarrow> \<not> entry_time e < t | None \<Rightarrow> True) \<and>
     (case filter_to f of Some t \<Rightarrow> \<not> entry_time e > t | None \<Rightarrow> True)"

definition get_audit_log :: "PermissionManager \<Rightarrow> AuditFilter option \<Rightarrow> AuditEntry list" where
  "get_audit_log m f = (case f of None \<Rightarrow> audit_log m | Some f \<Rightarrow> filter (filter_admits f) (audit_log m))"

definition log_action ::
    "PermissionManager \<Rightarrow> int \<Rightarrow> uuid \<Rightarrow> string \<Rightarrow> string \<Rightarrow> AccessDecision \<Rightarrow> ActionOutcome \<Rightarrow> PermissionManager" where
  "log_action m now a action resource decision outcome = m\<lparr>audit_log := audit_log m @
     [\<lparr>entry_time = now, entry_agent = a, entry_action = action, entry_resource = resource,
       entry_decision = decision, entry_outcome = outcome\<rparr>]\<rparr>"

section \<open>The profile rules as a first-match list\<close>

definition perm_decide :: "PermissionRule list \<Rightarrow> access_query \<Rightarrow> AccessDecision \<times> nat option" where
  "perm_decide rules q =
     ((case find_matching_rule rules q of Some d \<Rightarrow> d | None \<Rightarrow> Denied), position (\<lambda>r. perm_hit r q) rules)"

lemma find_matching_rule_eq:
  "find_matching_rule rules q = map_option (\<lambda>i. perm_decision (rules ! i)) (position (\<lambda>r. perm_hit r q) rules)"
  by (induction rules) (auto simp: option.map_comp comp_def)

interpretation perm_fm: first_match perm_hit perm_decision Denied perm_decide
  by unfold_locales (simp_all add: perm_decide_def find_matching_rule_eq)

lemma find_matching_rule_Some:
  "find_matching_rule rules q = Some d \<longleftrightarrow>
     (\<exists>i<length rules. perm_hit (rules ! i) q \<and> perm_decision (rules ! i) = d \<and> (\<forall>j<i. \<not> perm_hit (rules ! j) q))"
  by (auto simp: find_matching_rule_eq position_Some_iff)

section \<open>The predefined profiles\<close>

text \<open>A rule list that only grants operations, whatever the target.\<close>

definition grants :: "(ResourceType \<times> string list) list \<Rightarrow> PermissionRule list" where
  "grants gs = map (\<lambda>(r, ops). allow_rule r ops) gs"

definition grant_covers :: "(ResourceType \<times> string list) list \<Rightarrow> ResourceType \<Rightarrow> string \<Rightarrow> bool" where
  "grant_covers gs r operation \<longleftrightarrow>
     (\<exists>(r', ops)\<in>set gs. r' = r \<and> (\<exists>op\<in>set ops. op = operation \<or> op = equivalent_operation r operation \<or> op = ''*''))"

lemma allow_rule_hit:
  "perm_hit (allow_rule r' ops) (r, operation, t) \<longleftrightarrow>
     r' = r \<and> (\<exists>op\<in>set ops. op = operation \<or> op = equivalent_operation r operation \<or> op = ''*'')"
  by (simp add: perm_hit_def allow_rule_def)

lemma grant_covers_Cons:
  "grant_covers ((r', ops) # gs) r operation \<longleftrightarrow> perm_hit (allow_rule r' ops) (r, operation, t) \<or> grant_covers gs r operation"
  unfolding grant_covers_def allow_rule_hit by simp

lemma find_grants:
  "find_matching_rule (grants gs) (r, operation, t) = (if grant_covers gs r operation then Some Allowed else None)"
proof (induction gs)
  case (Cons g gs)
  obtain r' ops where "g = (r', ops)" by (cases g)
  with Cons show ?case using grant_covers_Cons [of r' ops gs r operation t]
    by (simp add: grants_def) (simp add: allow_rule_def)
qed (simp add: grants_def grant_covers_def)

definition grants_within :: "(ResourceType \<times> string list) list \<Rightarrow> (ResourceType \<times> string list) list \<Rightarrow> bool" where
  "grants_within gs hs \<longleftrightarrow> (\<forall>(r, ops)\<in>set gs. \<exists>(r', ops')\<in>set hs. r' = r \<and> set ops \<subseteq> set ops')"

lemma grants_within_covers: "grants_within gs hs \<Longrightarrow> grant_covers gs r operation \<Longrightarrow> grant_covers hs r operation"
  unfolding grants_within_def grant_covers_def by fastforce

text \<open>The grants of each predefined profile, the least powerful first.\<close>

definition predefined :: "(string \<times> (ResourceType \<times> string list) list) list" where
  "predefined =
     [(''read-only'', [(Filesystem, [''read'', ''list'']), (Network, [''get'']), (Memory, snd (memory_grants ! 0))]),
      (''standard'', [(Filesystem, [''read'', ''write'', ''create'', ''create_dir'', ''edit'', ''list'']),
         (Network, [''get'', ''post'']), (Application, [''launch'']), (Ipc, ipc_operations), (Memory, snd (memory_grants ! 1))]),
      (''elevated'', [(Filesystem, [''read'', ''write'', ''create'', ''create_dir'', ''edit'', ''list'', ''delete'']),
         (Network, [''get'', ''post'', ''put'', ''delete'']), (Application, [''launch'']),
         (Browser, [''navigate'', ''click'', ''type'', ''read'']), (Ipc, ipc_operations), (Memory, snd (memory_grants ! 2))]),
      (''full-access'', [])]"

lemma permissions_new_profiles:
  "\<exists>m. permissions_new = Inr m \<and> agent_profiles m = [] \<and> audit_log m = [] \<and>
     map (\<lambda>(p, pr). (p, profile_rules pr)) (profiles m) = map (\<lambda>(p, gs). (p, grants gs)) predefined"
  by (simp add: permissions_new_def register_predefined_profiles_def memory_grants_def Let_def read_only_profile_def
      standard_profile_def elevated_profile_def predefined_def grants_def allow_rule_def)

lemma map_of_profile_rules:
  "map_option profile_rules (map_of ps p) = map_of (map (\<lambda>(p, pr). (p, profile_rules pr)) ps) p"
  by (induction ps) auto

lemma predefined_access:
  assumes "permissions_new = Inr m" and "map_of predefined p = Some gs" and "p \<noteq> ''full-access''"
  shows "check_access (assign_profile m a p) a r operation t =
    (if operation \<in> set HIGH_RISK_OPS then RequiresApproval
     else if grant_covers gs r operation then Allowed else Denied)"
proof -
  have "map (\<lambda>(p, pr). (p, profile_rules pr)) (profiles m) = map (\<lambda>(p, gs). (p, grants gs)) predefined"
  proof -
    obtain m' where "permissions_new = Inr m'"
      and *: "map (\<lambda>(p, pr). (p, profile_rules pr)) (profiles m') = map (\<lambda>(p, gs). (p, grants gs)) predefined"
      using permissions_new_profiles by blast
    with assms(1) have "m' = m" by (metis sum.inject(2))
    with * show ?thesis by (rule subst [rotated])
  qed
  moreover have "map_of (map (\<lambda>(p, gs). (p, grants gs)) predefined) p = Some (grants gs)"
    using assms(2) by (simp add: map_of_map)
  ultimately have "map_option profile_rules (map_of (profiles m) p) = Some (grants gs)"
    by (simp add: map_of_profile_rules)
  then obtain pr where "map_of (profiles m) p = Some pr" "profile_rules pr = grants gs" by auto
  with assms(3) show ?thesis
    by (simp add: check_access_def assign_profile_def map_of_update find_grants)
qed

lemma predefined_nested:
  "grants_within (the (map_of predefined ''read-only'')) (the (map_of predefined ''standard''))"
  "grants_within (the (map_of predefined ''standard'')) (the (map_of predefined ''elevated''))"
  by code_simp+

lemma predefined_Some: "p \<in> {''read-only'', ''standard'', ''elevated''} \<Longrightarrow> \<exists>gs. map_of predefined p = Some gs"
  by (auto simp: predefined_def)

section \<open>Guarantees\<close>

text \<open>C18: Access is granted only on purpose: an agent without a profile gets nothing, and outside
  the full-access profile an allowed operation is not a high-risk one and is allowed by the
  first rule of the agent's profile that matches it, which never is a target-scoped rule if the
  request names no target.\<close>

theorem access_needs_rule:
  assumes "check_access m a r operation t = Allowed"
  shows "map_of (agent_profiles m) a = Some ''full-access'' \<or>
    (operation \<notin> set HIGH_RISK_OPS \<and> (\<exists>pid profile i. map_of (agent_profiles m) a = Some pid \<and>
       map_of (profiles m) pid = Some profile \<and> i < length (profile_rules profile) \<and>
       perm_hit (profile_rules profile ! i) (r, operation, t) \<and> perm_decision (profile_rules profile ! i) = Allowed \<and>
       (t = None \<longrightarrow> perm_targets (profile_rules profile ! i) = None) \<and>
       (\<forall>j<i. \<not> perm_hit (profile_rules profile ! j) (r, operation, t))))"
proof (cases "map_of (agent_profiles m) a = Some ''full-access''")
  case False
  with assms obtain pid profile where *: "map_of (agent_profiles m) a = Some pid" "operation \<notin> set HIGH_RISK_OPS"
    "map_of (profiles m) pid = Some profile"
    "find_matching_rule (profile_rules profile) (r, operation, t) = Some Allowed"
    by (auto simp: check_access_def split: option.splits if_splits)
  from *(4) obtain i where i: "i < length (profile_rules profile)" "perm_hit (profile_rules profile ! i) (r, operation, t)"
    "perm_decision (profile_rules profile ! i) = Allowed" "\<forall>j<i. \<not> perm_hit (profile_rules profile ! j) (r, operation, t)"
    by (auto simp: find_matching_rule_Some)
  from i(2) have "t = None \<longrightarrow> perm_targets (profile_rules profile ! i) = None"
    by (auto simp: perm_hit_def split: option.splits)
  with * i show ?thesis by blast
qed simp

text \<open>C33: Construction registers the predefined profiles without panicking, and they are nested:
  whatever an agent may do under read-only it may do under standard, whatever it may do under
  standard it may do under elevated, and full-access allows everything.\<close>

theorem predefined_profiles_nested:
  "\<exists>m. permissions_new = Inr m \<and>
    (check_access (assign_profile m a ''read-only'') a r operation t = Allowed \<longrightarrow>
       check_access (assign_profile m a ''standard'') a r operation t = Allowed) \<and>
    (check_access (assign_profile m a ''standard'') a r operation t = Allowed \<longrightarrow>
       check_access (assign_profile m a ''elevated'') a r operation t = Allowed) \<and>
    check_access (assign_profile m a ''full-access'') a r operation t = Allowed"
proof -
  obtain m where m: "permissions_new = Inr m" using permissions_new_profiles by blast
  have step: "check_access (assign_profile m a q) a r operation t = Allowed"
    if "check_access (assign_profile m a p) a r operation t = Allowed"
      "map_of predefined p = Some gs" "map_of predefined q = Some hs" "p \<noteq> ''full-access''" "q \<noteq> ''full-access''"
      "grants_within gs hs" for p q gs hs
    using that(1) grants_within_covers [OF that(6)]
    unfolding predefined_access [OF m that(2,4)] predefined_access [OF m that(3,5)] by (simp split: if_splits)
  obtain g1 where g1: "map_of predefined ''read-only'' = Some g1" using predefined_Some by blast
  obtain g2 where g2: "map_of predefined ''standard'' = Some g2" using predefined_Some by blast
  obtain g3 where g3: "map_of predefined ''elevated'' = Some g3" using predefined_Some by blast
  have within: "grants_within g1 g2" "grants_within g2 g3" using predefined_nested by (simp_all add: g1 g2 g3)
  show ?thesis
  proof (intro exI [of _ m] conjI impI)
    show "check_access (assign_profile m a ''full-access'') a r operation t = Allowed"
      by (simp add: check_access_def assign_profile_def map_of_update)
  next
    assume "check_access (assign_profile m a ''read-only'') a r operation t = Allowed"
    from step [OF this g1 g2 _ _ within(1)] show "check_access (assign_profile m a ''standard'') a r operation t = Allowed" by simp
  next
    assume "check_access (assign_profile m a ''standard'') a r operation t = Allowed"
    from step [OF this g2 g3 _ _ within(2)] show "check_access (assign_profile m a ''elevated'') a r operation t = Allowed" by simp
  qed (rule m)
qed

definition demo_perm :: PermissionManager where
  "demo_perm = (case permissions_new of Inr m \<Rightarrow> assign_profile m 7 ''read-only'' | Inl _ \<Rightarrow>
     \<lparr>profiles = [], agent_profiles = [], audit_log = []\<rparr>)"

theorem access_needs_rule_witness:
  "check_access demo_perm 7 Filesystem ''stat'' (Some ''/etc'') = Allowed \<and> ''stat'' \<notin> set HIGH_RISK_OPS"
proof -
  have "check_access demo_perm 7 Filesystem ''stat'' (Some ''/etc'') = Allowed" by code_simp
  moreover have "map_of (agent_profiles demo_perm) 7 \<noteq> Some ''full-access''" by code_simp
  ultimately show ?thesis using access_needs_rule [of demo_perm 7 Filesystem "''stat''" "Some ''/etc''"] by simp
qed

theorem predefined_profiles_nested_witness:
  "\<exists>m. permissions_new = Inr m \<and> check_access (assign_profile m 7 ''elevated'') 7 Network ''get'' None = Allowed"
proof -
  obtain m where m: "permissions_new = Inr m"
    and n: "check_access (assign_profile m 7 ''standard'') 7 Network ''get'' None = Allowed \<longrightarrow>
       check_access (assign_profile m 7 ''elevated'') 7 Network ''get'' None = Allowed"
    using predefined_profiles_nested [of 7 Network "''get''" None] by blast
  have "check_access (assign_profile (case permissions_new of Inr m \<Rightarrow> m | Inl _ \<Rightarrow> demo_perm) 7 ''standard'') 7 Network ''get'' None = Allowed"
    by code_simp
  then have "check_access (assign_profile m 7 ''standard'') 7 Network ''get'' None = Allowed" by (simp add: m)
  with m n show ?thesis by blast
qed

end
