(* ===== verification/Syscall_Gate.thy ===== *)
theory Syscall_Gate
  imports Mac Tools Namespaces Cgroups
begin

text \<open>
  The syscall gate (\<open>crates/kernel/src/syscall_gate.rs\<close>), through which every tool call passes:
  registration of agents, namespaces, capabilities, mandatory access control, exact single-use
  approvals and the control-group slot. Each definition is one section that runs under the
  gate's mutation lock or under the lock of the access control engine; a call is a sequence of
  such sections, and other threads may run between them.

  Counters are \<open>fetch_add\<close> on \<open>AtomicU64\<close> and wrap. The receiver end of the membership-change
  channel is its current value. The text of \<open>CgroupUnavailable\<close> is kept as the error it is
  printed from.
\<close>

section \<open>Data\<close>

type_synonym pid = u64

datatype unavailable_reason = AdmissionClosed | CgroupReason CgroupError

datatype GateDenial =
    UnknownAgent
  | UnknownTool string
  | ApprovalRequired string ApprovalPolicy
  | MissingCapability u64
  | MacDeny string string
  | CgroupQuota
  | CgroupUnavailable unavailable_reason
  | CgroupMembershipChanged
  | AuthorizationStateChanged
  | CgroupToolLimit
  | NotInNamespace string namespace_id

record ToolAction =
  ta_action :: string
  ta_required_cap :: "u64 option"

record ToolCallContract =
  tc_tool :: string
  tc_resource :: string
  tc_action :: string
  tc_capabilities :: "u64 list"
  tc_approval :: ApprovalPolicy
  tc_contract :: "string option"

record GateAdmissionContract =
  approval_contract :: string
  request_identity_of :: string
  track_peripheral_activity :: bool

type_synonym ApprovalKey = "uuid \<times> u64 \<times> string \<times> string \<times> string"

record AgentAuthorizationSnapshot =
  snap_pid :: pid
  snap_caps :: CapabilitySet
  snap_cgroup :: cgroup_id
  snap_cgroup_revision :: u64
  snap_accepting :: bool
  snap_namespaces :: "namespace_id list"
  snap_registration :: u64
  snap_authorization :: u64

record ToolNamespaceState =
  tns_namespace :: "namespace_id option"
  tns_revision :: u64

record ToolAuthorizationSnapshot =
  snap_agent :: AgentAuthorizationSnapshot
  snap_tool_namespace :: ToolNamespaceState
  snap_mac_revision :: u64

record AuthorizedToolCall =
  auth_pid :: pid
  auth_audited :: bool
  auth_pending :: "(ApprovalKey \<times> ApprovalPolicy) option"
  auth_snapshot :: "ToolAuthorizationSnapshot option"

datatype GateMutationError =
    AlreadyRegistered uuid
  | NotRegistered uuid
  | ManagedCgroupImmutable uuid
  | CgroupFailed CgroupError

record GateRecord =
  rec_pid :: pid
  rec_caps :: CapabilitySet
  rec_cgroup :: cgroup_id
  managed_cgroup :: bool
  cgroup_revision :: u64
  cgroup_changes :: u64
  registration_revision :: u64
  accepting_tool_calls :: bool
  rec_namespaces :: "namespace_id list"
  authorization_revision :: u64
  namespace_revision :: u64

record CgroupQuotaSnapshot =
  constraints :: "(string \<times> u64) list"
  membership_revision :: u64

record AgentGateInfo =
  info_pid :: pid
  info_capabilities :: "string list"
  info_cgroup :: cgroup_id
  info_namespaces :: "namespace_id list"

record CloneGateSnapshot =
  clone_capabilities :: CapabilitySet
  clone_cgroup :: cgroup_id
  clone_namespaces :: "namespace_id list"
  mac_label :: string
  clone_authorization :: u64

record GateStats =
  allowed :: u64
  denied_capability :: u64
  denied_mac :: u64
  denied_approval :: u64
  denied_cgroup :: u64
  denied_unknown :: u64
  denied_namespace :: u64
  audited :: u64

datatype AuditDecision = AuditAllowed | AuditDenied

record AuditEvent =
  ev_agent :: uuid
  ev_pid :: pid
  ev_tool :: string
  ev_action :: string
  ev_resource :: string
  ev_decision :: AuditDecision

text \<open>\<open>audit_events\<close> is what an installed sink has received.\<close>

record SyscallGate =
  mac :: MacEngine
  mac_revision :: u64
  cgroups :: CgroupManager
  unconfined :: bool
  default_cgroup :: cgroup_id
  records :: "(uuid \<times> GateRecord) list"
  tool_namespaces :: "(string \<times> namespace_id) list"
  tool_namespace_revision :: u64
  approvals :: "(ApprovalKey \<times> ApprovalPolicy) list"
  activity :: activity_map
  next_pid :: pid
  next_cgroup_revision :: u64
  next_authorization_revision :: u64
  audit_sink :: bool
  audit_events :: "AuditEvent list"
  gate_stats :: GateStats
  agent_stats :: "(uuid \<times> GateStats) list"

definition stats_default :: GateStats where
  "stats_default = \<lparr>allowed = 0, denied_capability = 0, denied_mac = 0, denied_approval = 0,
     denied_cgroup = 0, denied_unknown = 0, denied_namespace = 0, audited = 0\<rparr>"

definition CAPABILITY_NAMES :: "(u64 \<times> string) list" where
  "CAPABILITY_NAMES =
     [(CAP_TOOL_MOUNT, ''CAP_TOOL_MOUNT''), (CAP_AGENT_CREATE, ''CAP_AGENT_CREATE''),
      (CAP_AGENT_KILL, ''CAP_AGENT_KILL''), (CAP_NET_ACCESS, ''CAP_NET_ACCESS''),
      (CAP_FILE_WRITE, ''CAP_FILE_WRITE''), (CAP_FILE_DELETE, ''CAP_FILE_DELETE''),
      (CAP_EXEC, ''CAP_EXEC''), (CAP_ADMIN, ''CAP_ADMIN''), (CAP_SYS_RESOURCE, ''CAP_SYS_RESOURCE'')]"

definition capability_bit :: "string \<Rightarrow> u64 option" where
  "capability_bit name = map_option fst (find (\<lambda>(bit, label). label = name) CAPABILITY_NAMES)"

definition capability_names :: "CapabilitySet \<Rightarrow> string list" where
  "capability_names caps = map snd (filter (\<lambda>(bit, _). cap_has caps bit) CAPABILITY_NAMES)"

text \<open>The built-in catalogue is a value computed once per process and an argument here.\<close>

definition EXEC_ACTION :: ToolAction where
  "EXEC_ACTION = \<lparr>ta_action = ''exec'', ta_required_cap = Some CAP_EXEC\<rparr>"

definition classify_tool :: "(string \<times> ToolSecurity) list \<Rightarrow> string \<Rightarrow> ToolAction" where
  "classify_tool catalog tool = (case map_of catalog tool of
     None \<Rightarrow> EXEC_ACTION
   | Some s \<Rightarrow> \<lparr>ta_action = action_str (sec_action s),
       ta_required_cap = (case required_capabilities s of [] \<Rightarrow> None | c # _ \<Rightarrow> Some c)\<rparr>)"

section \<open>Counters and audit\<close>

definition tally :: "(GateStats \<Rightarrow> GateStats) \<Rightarrow> SyscallGate \<Rightarrow> SyscallGate" where
  "tally f g = g\<lparr>gate_stats := f (gate_stats g)\<rparr>"

definition record_agent_allowed :: "SyscallGate \<Rightarrow> uuid \<Rightarrow> bool \<Rightarrow> SyscallGate" where
  "record_agent_allowed g a was_audited = g\<lparr>agent_stats := AList.map_entry a
     (\<lambda>s. let s1 = s\<lparr>allowed := sat_add (allowed s) 1\<rparr> in
        if was_audited then s1\<lparr>audited := sat_add (audited s1) 1\<rparr> else s1) (agent_stats g)\<rparr>"

fun denial_stats :: "GateDenial \<Rightarrow> GateStats \<Rightarrow> GateStats" where
  "denial_stats (MissingCapability _) s = s\<lparr>denied_capability := sat_add (denied_capability s) 1\<rparr>"
| "denial_stats (MacDeny _ _) s = s\<lparr>denied_mac := sat_add (denied_mac s) 1\<rparr>"
| "denial_stats (ApprovalRequired _ _) s = s\<lparr>denied_approval := sat_add (denied_approval s) 1\<rparr>"
| "denial_stats CgroupQuota s = s\<lparr>denied_cgroup := sat_add (denied_cgroup s) 1\<rparr>"
| "denial_stats CgroupToolLimit s = s\<lparr>denied_cgroup := sat_add (denied_cgroup s) 1\<rparr>"
| "denial_stats (CgroupUnavailable _) s = s\<lparr>denied_cgroup := sat_add (denied_cgroup s) 1\<rparr>"
| "denial_stats CgroupMembershipChanged s = s\<lparr>denied_cgroup := sat_add (denied_cgroup s) 1\<rparr>"
| "denial_stats AuthorizationStateChanged s = s\<lparr>denied_unknown := sat_add (denied_unknown s) 1\<rparr>"
| "denial_stats (NotInNamespace _ _) s = s\<lparr>denied_namespace := sat_add (denied_namespace s) 1\<rparr>"
| "denial_stats UnknownAgent s = s\<lparr>denied_unknown := sat_add (denied_unknown s) 1\<rparr>"
| "denial_stats (UnknownTool _) s = s\<lparr>denied_unknown := sat_add (denied_unknown s) 1\<rparr>"

definition record_agent_denial :: "SyscallGate \<Rightarrow> uuid \<Rightarrow> GateDenial \<Rightarrow> SyscallGate" where
  "record_agent_denial g a d = g\<lparr>agent_stats := AList.map_entry a (denial_stats d) (agent_stats g)\<rparr>"

definition emit_audit :: "SyscallGate \<Rightarrow> AuditEvent \<Rightarrow> SyscallGate" where
  "emit_audit g ev = (if audit_sink g then g\<lparr>audit_events := audit_events g @ [ev]\<rparr> else g)"

definition set_audit_sink :: "SyscallGate \<Rightarrow> SyscallGate" where
  "set_audit_sink g = g\<lparr>audit_sink := True, audit_events := []\<rparr>"

definition stats_of_agent :: "SyscallGate \<Rightarrow> uuid \<Rightarrow> GateStats" where
  "stats_of_agent g a = (case map_of (agent_stats g) a of Some s \<Rightarrow> s | None \<Rightarrow> stats_default)"

definition add_stats :: "GateStats \<Rightarrow> GateStats \<Rightarrow> GateStats" where
  "add_stats acc s = \<lparr>allowed = sat_add (allowed acc) (allowed s),
     denied_capability = sat_add (denied_capability acc) (denied_capability s),
     denied_mac = sat_add (denied_mac acc) (denied_mac s),
     denied_approval = sat_add (denied_approval acc) (denied_approval s),
     denied_cgroup = sat_add (denied_cgroup acc) (denied_cgroup s),
     denied_unknown = sat_add (denied_unknown acc) (denied_unknown s),
     denied_namespace = sat_add (denied_namespace acc) (denied_namespace s),
     audited = sat_add (audited acc) (audited s)\<rparr>"

definition aggregate_agent_stats :: "SyscallGate \<Rightarrow> uuid list \<Rightarrow> GateStats" where
  "aggregate_agent_stats g agents = foldl (\<lambda>acc a. add_stats acc (stats_of_agent g a)) stats_default agents"

definition purge_agent_stats :: "SyscallGate \<Rightarrow> uuid \<Rightarrow> SyscallGate" where
  "purge_agent_stats g a = g\<lparr>agent_stats := AList.delete a (agent_stats g)\<rparr>"

section \<open>Construction and the access control engine\<close>

definition with_mac :: "CgroupManager \<Rightarrow> bool \<Rightarrow> PolicyRule list \<Rightarrow> SyscallGate" where
  "with_mac m enf rules = \<lparr>mac = load_policy (mac_new enf) rules, mac_revision = 1, cgroups = m,
     unconfined = False, default_cgroup = root_id m, records = [], tool_namespaces = [],
     tool_namespace_revision = 1, approvals = [], activity = [], next_pid = 1, next_cgroup_revision = 1,
     next_authorization_revision = 1, audit_sink = False, audit_events = [], gate_stats = stats_default,
     agent_stats = []\<rparr>"

definition mac_is_enforcing :: "SyscallGate \<Rightarrow> bool" where
  "mac_is_enforcing g = is_enforcing (mac g)"

text \<open>
  A mutator of the engine holds the engine's lock, advances the revision and then changes the
  engine. The two sections are separate: a final admission, which does not take the engine's
  lock, can run between them. The first section is \<open>bump_mac_revision\<close> for every mutator.
\<close>

definition bump_mac_revision :: "SyscallGate \<Rightarrow> SyscallGate" where
  "bump_mac_revision g = g\<lparr>mac_revision := mac_revision g + 1\<rparr>"

definition load_mac_policy :: "SyscallGate \<Rightarrow> PolicyRule list \<Rightarrow> SyscallGate" where
  "load_mac_policy g rules = (bump_mac_revision g)\<lparr>mac := load_policy (mac g) rules\<rparr>"

text \<open>The source is parsed twice, first into a throw-away engine; only then is the revision advanced.\<close>

definition load_mac_policy_toml ::
    "(string \<Rightarrow> string + PolicyRule list) \<Rightarrow> SyscallGate \<Rightarrow> string \<Rightarrow> (string + unit) \<times> SyscallGate" where
  "load_mac_policy_toml parse g source =
     (case load_policy_toml parse (mac_new True) source of
        Inl e \<Rightarrow> (Inl e, g)
      | Inr _ \<Rightarrow> (case load_policy_toml parse (mac g) source of
            Inl e \<Rightarrow> (Inl e, bump_mac_revision g)
          | Inr e' \<Rightarrow> (Inr (), (bump_mac_revision g)\<lparr>mac := e'\<rparr>)))"

definition label_mac_agent :: "SyscallGate \<Rightarrow> pid \<Rightarrow> SecurityLabel \<Rightarrow> SyscallGate" where
  "label_mac_agent g p l = (bump_mac_revision g)\<lparr>mac := label_agent (mac g) p l\<rparr>"

definition label_mac_resource :: "SyscallGate \<Rightarrow> string \<Rightarrow> SecurityLabel \<Rightarrow> SyscallGate" where
  "label_mac_resource g r l = (bump_mac_revision g)\<lparr>mac := label_resource (mac g) r l\<rparr>"

definition set_mac_enforcing :: "SyscallGate \<Rightarrow> bool \<Rightarrow> SyscallGate" where
  "set_mac_enforcing g b = (bump_mac_revision g)\<lparr>mac := set_enforcing (mac g) b\<rparr>"

section \<open>Registration\<close>

definition try_register_agent_with_admission ::
    "SyscallGate \<Rightarrow> uuid \<Rightarrow> CapabilitySet \<Rightarrow> cgroup_id option \<Rightarrow> bool \<Rightarrow> bool
      \<Rightarrow> (GateMutationError + pid) \<times> SyscallGate" where
  "try_register_agent_with_admission g kid caps cgroup managed accepting =
     (if map_of (records g) kid \<noteq> None then (Inl (AlreadyRegistered kid), g)
      else
        let p = next_pid g; g1 = g\<lparr>next_pid := p + 1\<rparr>;
            cg = (case cgroup of Some c \<Rightarrow> c | None \<Rightarrow> default_cgroup g) in
        case add_agent (cgroups g1) cg p of
          Inl e \<Rightarrow> (Inl (CgroupFailed e), g1)
        | Inr m \<Rightarrow>
            let cr = next_cgroup_revision g1; ar = next_authorization_revision g1 in
            (Inr p, g1\<lparr>cgroups := m, next_cgroup_revision := cr + 1, next_authorization_revision := ar + 1,
               records := AList.update kid
                 \<lparr>rec_pid = p, rec_caps = caps, rec_cgroup = cg, managed_cgroup = managed, cgroup_revision = cr,
                  cgroup_changes = cr, registration_revision = ar, accepting_tool_calls = accepting,
                  rec_namespaces = [], authorization_revision = ar, namespace_revision = ar\<rparr> (records g1),
               agent_stats := (if map_of (agent_stats g1) kid = None
                 then AList.update kid stats_default (agent_stats g1) else agent_stats g1)\<rparr>))"

definition try_register_agent_with_cgroup_policy ::
    "SyscallGate \<Rightarrow> uuid \<Rightarrow> CapabilitySet \<Rightarrow> cgroup_id option \<Rightarrow> bool \<Rightarrow> (GateMutationError + pid) \<times> SyscallGate" where
  "try_register_agent_with_cgroup_policy g kid caps cgroup managed =
     try_register_agent_with_admission g kid caps cgroup managed True"

definition try_register_agent ::
    "SyscallGate \<Rightarrow> uuid \<Rightarrow> CapabilitySet \<Rightarrow> cgroup_id option \<Rightarrow> (GateMutationError + pid) \<times> SyscallGate" where
  "try_register_agent g kid caps cgroup = try_register_agent_with_cgroup_policy g kid caps cgroup False"

definition try_register_managed_agent ::
    "SyscallGate \<Rightarrow> uuid \<Rightarrow> CapabilitySet \<Rightarrow> cgroup_id \<Rightarrow> (GateMutationError + pid) \<times> SyscallGate" where
  "try_register_managed_agent g kid caps cgroup =
     try_register_agent_with_cgroup_policy g kid caps (Some cgroup) True"

definition try_register_managed_agent_closed ::
    "SyscallGate \<Rightarrow> uuid \<Rightarrow> CapabilitySet \<Rightarrow> cgroup_id \<Rightarrow> (GateMutationError + pid) \<times> SyscallGate" where
  "try_register_managed_agent_closed g kid caps cgroup =
     try_register_agent_with_admission g kid caps (Some cgroup) True False"

definition register_tool_namespace :: "SyscallGate \<Rightarrow> string \<Rightarrow> namespace_id \<Rightarrow> SyscallGate" where
  "register_tool_namespace g tool ns = g\<lparr>tool_namespaces := AList.update tool ns (tool_namespaces g),
     tool_namespace_revision := tool_namespace_revision g + 1\<rparr>"

definition unregister_tool_namespace :: "SyscallGate \<Rightarrow> string \<Rightarrow> SyscallGate" where
  "unregister_tool_namespace g tool = g\<lparr>tool_namespaces := AList.delete tool (tool_namespaces g),
     tool_namespace_revision := tool_namespace_revision g + 1\<rparr>"

definition tool_visible_to_agent :: "SyscallGate \<Rightarrow> uuid \<Rightarrow> string \<Rightarrow> bool" where
  "tool_visible_to_agent g kid tool =
     (if unconfined g then True
      else case map_of (records g) kid of
        None \<Rightarrow> False
      | Some r \<Rightarrow> (case map_of (tool_namespaces g) tool of None \<Rightarrow> True | Some ns \<Rightarrow> ns \<in> set (rec_namespaces r)))"

definition tool_visible_in_namespace :: "SyscallGate \<Rightarrow> string \<Rightarrow> namespace_id \<Rightarrow> bool" where
  "tool_visible_in_namespace g tool ns = (case map_of (tool_namespaces g) tool of None \<Rightarrow> True | Some n \<Rightarrow> n = ns)"

text \<open>A change of the record of a registered agent that takes a new authorization revision.\<close>

definition revise :: "uuid \<Rightarrow> (u64 \<Rightarrow> GateRecord \<Rightarrow> GateRecord) \<Rightarrow> SyscallGate \<Rightarrow> SyscallGate" where
  "revise kid f g = (let ar = next_authorization_revision g in
     g\<lparr>next_authorization_revision := ar + 1, records := AList.map_entry kid (f ar) (records g)\<rparr>)"

definition set_agent_namespaces :: "SyscallGate \<Rightarrow> uuid \<Rightarrow> namespace_id list \<Rightarrow> SyscallGate" where
  "set_agent_namespaces g kid nss =
     (case map_of (records g) kid of
        None \<Rightarrow> g
      | Some _ \<Rightarrow> revise kid (\<lambda>ar r. r\<lparr>rec_namespaces := nss, authorization_revision := ar, namespace_revision := ar\<rparr>) g)"

definition add_agent_namespace :: "SyscallGate \<Rightarrow> uuid \<Rightarrow> namespace_id \<Rightarrow> SyscallGate" where
  "add_agent_namespace g kid ns =
     (case map_of (records g) kid of
        None \<Rightarrow> g
      | Some r \<Rightarrow>
          if ns \<in> set (rec_namespaces r) then g
          else revise kid (\<lambda>ar r. r\<lparr>rec_namespaces := rec_namespaces r @ [ns], authorization_revision := ar,
                 namespace_revision := ar\<rparr>) g)"

definition namespace_membership :: "SyscallGate \<Rightarrow> uuid \<Rightarrow> (pid \<times> namespace_id list \<times> u64) option" where
  "namespace_membership g kid =
     map_option (\<lambda>r. (rec_pid r, rec_namespaces r, namespace_revision r)) (map_of (records g) kid)"

definition set_capabilities :: "SyscallGate \<Rightarrow> uuid \<Rightarrow> CapabilitySet \<Rightarrow> SyscallGate" where
  "set_capabilities g kid caps =
     (case map_of (records g) kid of
        None \<Rightarrow> g
      | Some _ \<Rightarrow> revise kid (\<lambda>ar r. r\<lparr>rec_caps := caps, authorization_revision := ar\<rparr>) g)"

definition cancel_where :: "(lease \<Rightarrow> bool) \<Rightarrow> activity_map \<Rightarrow> activity_map" where
  "cancel_where P leases = map (\<lambda>(l, cancelled). (l, cancelled \<or> P l)) leases"

definition cancel_peripheral_for_agent :: "SyscallGate \<Rightarrow> uuid \<Rightarrow> nat \<times> SyscallGate" where
  "cancel_peripheral_for_agent g kid =
     (length (filter (\<lambda>((a, _, _), _). a = kid) (activity g)),
      g\<lparr>activity := cancel_where (\<lambda>(a, _, _). a = kid) (activity g)\<rparr>)"

text \<open>What both ways of unregistering do once the membership is gone.\<close>

definition forget_agent :: "SyscallGate \<Rightarrow> uuid \<Rightarrow> SyscallGate" where
  "forget_agent g kid = snd (cancel_peripheral_for_agent
     (g\<lparr>records := AList.delete kid (records g),
        approvals := filter (\<lambda>((a, _), _). a \<noteq> kid) (approvals g)\<rparr>) kid)"

definition try_unregister_agent :: "SyscallGate \<Rightarrow> uuid \<Rightarrow> (GateMutationError + unit) \<times> SyscallGate" where
  "try_unregister_agent g kid =
     (case map_of (records g) kid of
        None \<Rightarrow> (Inl (NotRegistered kid), g)
      | Some r \<Rightarrow> (case try_remove_agent (cgroups g) (rec_cgroup r) (rec_pid r) of
            Inl e \<Rightarrow> (Inl (CgroupFailed e), g)
          | Inr m \<Rightarrow> (Inr (), forget_agent (g\<lparr>cgroups := m\<rparr>) kid)))"

definition force_unregister_agent :: "SyscallGate \<Rightarrow> uuid \<Rightarrow> (GateMutationError + unit) \<times> SyscallGate" where
  "force_unregister_agent g kid =
     (case map_of (records g) kid of
        None \<Rightarrow> (Inl (NotRegistered kid), g)
      | Some r \<Rightarrow> (case force_remove_agent (cgroups g) (rec_cgroup r) (rec_pid r) of
            (Inl e, m) \<Rightarrow> (Inl (CgroupFailed e), g\<lparr>cgroups := m\<rparr>)
          | (Inr _, m) \<Rightarrow> (Inr (), forget_agent (g\<lparr>cgroups := m\<rparr>) kid)))"

text \<open>The synchronous part of \<open>close_tool_admission_and_wait\<close>; the wait follows it.\<close>

definition close_tool_admission :: "SyscallGate \<Rightarrow> uuid \<Rightarrow> (GateMutationError + pid) \<times> SyscallGate" where
  "close_tool_admission g kid =
     (case map_of (records g) kid of
        None \<Rightarrow> (Inl (NotRegistered kid), g)
      | Some r \<Rightarrow> (Inr (rec_pid r),
          revise kid (\<lambda>ar r. r\<lparr>accepting_tool_calls := False, authorization_revision := ar\<rparr>) g))"

definition reopen_tool_admission :: "SyscallGate \<Rightarrow> uuid \<Rightarrow> (GateMutationError + unit) \<times> SyscallGate" where
  "reopen_tool_admission g kid =
     (case map_of (records g) kid of
        None \<Rightarrow> (Inl (NotRegistered kid), g)
      | Some r \<Rightarrow> (Inr (), revise kid (\<lambda>ar r. r\<lparr>accepting_tool_calls := True, authorization_revision := ar\<rparr>) g))"

text \<open>The \<open>expect\<close> on the record is the panic of the reassignment.\<close>

definition try_set_cgroup :: "SyscallGate \<Rightarrow> uuid \<Rightarrow> cgroup_id \<Rightarrow> (GateMutationError failure + unit) \<times> SyscallGate" where
  "try_set_cgroup g kid cgroup =
     (case map_of (records g) kid of
        None \<Rightarrow> (Inl (Err (NotRegistered kid)), g)
      | Some current \<Rightarrow>
          if rec_cgroup current = cgroup then
            (case quota_constraints_for_agent (cgroups g) cgroup (rec_pid current) of
               Inl e \<Rightarrow> (Inl (Err (CgroupFailed e)), g) | Inr _ \<Rightarrow> (Inr (), g))
          else if managed_cgroup current then (Inl (Err (ManagedCgroupImmutable kid)), g)
          else case try_move_agent (cgroups g) (rec_cgroup current) cgroup (rec_pid current) of
            Inl (Err e) \<Rightarrow> (Inl (Err (CgroupFailed e)), g)
          | Inl Panic \<Rightarrow> (Inl Panic, g)
          | Inr m \<Rightarrow>
              let cr = next_cgroup_revision g in
              (Inr (), g\<lparr>cgroups := m, next_cgroup_revision := cr + 1,
                 records := AList.map_entry kid
                   (\<lambda>r. r\<lparr>rec_cgroup := cgroup, cgroup_revision := cr, cgroup_changes := cr\<rparr>) (records g)\<rparr>))"

text \<open>The wrappers that panic where the fallible operation fails.\<close>

definition register_agent ::
    "SyscallGate \<Rightarrow> uuid \<Rightarrow> CapabilitySet \<Rightarrow> cgroup_id option \<Rightarrow> (unit failure + pid) \<times> SyscallGate" where
  "register_agent g kid caps cgroup = (case try_register_agent g kid caps cgroup of
     (Inl _, g') \<Rightarrow> (Inl Panic, g') | (Inr p, g') \<Rightarrow> (Inr p, g'))"

definition unregister_agent :: "SyscallGate \<Rightarrow> uuid \<Rightarrow> (unit failure + unit) \<times> SyscallGate" where
  "unregister_agent g kid = (case try_unregister_agent g kid of
     (Inl _, g') \<Rightarrow> (Inl Panic, g') | (Inr _, g') \<Rightarrow> (Inr (), g'))"

definition set_cgroup :: "SyscallGate \<Rightarrow> uuid \<Rightarrow> cgroup_id \<Rightarrow> (unit failure + unit) \<times> SyscallGate" where
  "set_cgroup g kid cgroup = (case try_set_cgroup g kid cgroup of
     (Inl _, g') \<Rightarrow> (Inl Panic, g') | (Inr _, g') \<Rightarrow> (Inr (), g'))"

section \<open>Approvals\<close>

definition approval_key :: "digest \<Rightarrow> uuid \<Rightarrow> u64 \<Rightarrow> string \<Rightarrow> string \<Rightarrow> string \<Rightarrow> ApprovalKey" where
  "approval_key sha256 kid registration tool resource contract =
     (kid, registration, tool, opaque_identity sha256 resource, contract)"

definition grant_tool_approval_contract ::
    "digest \<Rightarrow> SyscallGate \<Rightarrow> uuid \<Rightarrow> string \<Rightarrow> string \<Rightarrow> string \<Rightarrow> ApprovalPolicy \<Rightarrow> bool \<times> SyscallGate" where
  "grant_tool_approval_contract sha256 g kid tool resource contract approval =
     (if approval = NoApproval then (False, g)
      else case map_of (records g) kid of
        None \<Rightarrow> (False, g)
      | Some r \<Rightarrow> (True, g\<lparr>approvals := AList.update
            (approval_key sha256 kid (registration_revision r) tool resource contract) approval (approvals g)\<rparr>))"

definition approved :: "SyscallGate \<Rightarrow> ApprovalKey \<Rightarrow> ApprovalPolicy \<Rightarrow> bool" where
  "approved g key required = (case map_of (approvals g) key of Some a \<Rightarrow> satisfies a required | None \<Rightarrow> False)"

definition tool_approval_granted_contract ::
    "digest \<Rightarrow> SyscallGate \<Rightarrow> uuid \<Rightarrow> string \<Rightarrow> string \<Rightarrow> string \<Rightarrow> ApprovalPolicy \<Rightarrow> bool option" where
  "tool_approval_granted_contract sha256 g kid tool resource contract required =
     map_option (\<lambda>r. approved g (approval_key sha256 kid (registration_revision r) tool resource contract) required)
       (map_of (records g) kid)"

definition revoke_tool_approval_contract ::
    "digest \<Rightarrow> SyscallGate \<Rightarrow> uuid \<Rightarrow> string \<Rightarrow> string \<Rightarrow> string \<Rightarrow> bool option \<times> SyscallGate" where
  "revoke_tool_approval_contract sha256 g kid tool resource contract =
     (case map_of (records g) kid of
        None \<Rightarrow> (None, g)
      | Some r \<Rightarrow>
          let key = approval_key sha256 kid (registration_revision r) tool resource contract in
          (Some (map_of (approvals g) key \<noteq> None), g\<lparr>approvals := AList.delete key (approvals g)\<rparr>))"

definition peripheral_call_state_contract ::
    "digest \<Rightarrow> SyscallGate \<Rightarrow> uuid \<Rightarrow> string \<Rightarrow> string \<Rightarrow> string \<Rightarrow> ApprovalPolicy \<Rightarrow> string \<Rightarrow> (bool \<times> nat) option" where
  "peripheral_call_state_contract sha256 g kid tool resource contract required identity =
     map_option (\<lambda>r. (approved g (approval_key sha256 kid (registration_revision r) tool resource contract) required,
         length (filter (\<lambda>((a, i, _), _). a = kid \<and> i = identity) (activity g))))
       (map_of (records g) kid)"

definition revoke_peripheral_call_contract ::
    "digest \<Rightarrow> SyscallGate \<Rightarrow> uuid \<Rightarrow> string \<Rightarrow> string \<Rightarrow> string \<Rightarrow> string \<Rightarrow> (bool \<times> nat) option \<times> SyscallGate" where
  "revoke_peripheral_call_contract sha256 g kid tool resource contract identity =
     (case map_of (records g) kid of
        None \<Rightarrow> (None, g)
      | Some r \<Rightarrow>
          let key = approval_key sha256 kid (registration_revision r) tool resource contract in
          (Some (map_of (approvals g) key \<noteq> None,
             length (filter (\<lambda>((a, i, _), _). a = kid \<and> i = identity) (activity g))),
           g\<lparr>approvals := AList.delete key (approvals g),
             activity := cancel_where (\<lambda>(a, i, _). a = kid \<and> i = identity) (activity g)\<rparr>))"

section \<open>Introspection and provider quota\<close>

definition pid_of :: "SyscallGate \<Rightarrow> uuid \<Rightarrow> pid option" where
  "pid_of g kid = map_option rec_pid (map_of (records g) kid)"

definition cgroup_quota_constraints :: "SyscallGate \<Rightarrow> uuid \<Rightarrow> GateDenial + CgroupQuotaSnapshot" where
  "cgroup_quota_constraints g kid =
     bind_res (ok_or (map_of (records g) kid) UnknownAgent) (\<lambda>r.
       case quota_constraints_for_agent (cgroups g) (rec_cgroup r) (rec_pid r) of
         Inl e \<Rightarrow> Inl (CgroupUnavailable (CgroupReason e))
       | Inr cs \<Rightarrow> Inr \<lparr>constraints = cs, membership_revision = cgroup_revision r\<rparr>)"

definition cgroup_quota_changes :: "SyscallGate \<Rightarrow> uuid \<Rightarrow> GateDenial + u64" where
  "cgroup_quota_changes g kid = ok_or (map_option cgroup_changes (map_of (records g) kid)) UnknownAgent"

definition with_verified_cgroup_quota_snapshot ::
    "SyscallGate \<Rightarrow> uuid \<Rightarrow> u64 \<Rightarrow> (unit \<Rightarrow> 'e + 'a) \<Rightarrow> GateDenial + ('e + 'a)" where
  "with_verified_cgroup_quota_snapshot g kid membership operation =
     bind_res (ok_or (map_of (records g) kid) UnknownAgent) (\<lambda>r.
       if cgroup_revision r \<noteq> membership then Inl CgroupMembershipChanged
       else case quota_constraints_for_agent (cgroups g) (rec_cgroup r) (rec_pid r) of
         Inl e \<Rightarrow> Inl (CgroupUnavailable (CgroupReason e))
       | Inr _ \<Rightarrow> Inr (operation ()))"

definition agent_info :: "SyscallGate \<Rightarrow> uuid \<Rightarrow> AgentGateInfo option" where
  "agent_info g kid = map_option (\<lambda>r. \<lparr>info_pid = rec_pid r, info_capabilities = capability_names (rec_caps r),
     info_cgroup = rec_cgroup r, info_namespaces = rec_namespaces r\<rparr>) (map_of (records g) kid)"

definition capture_clone_security :: "SyscallGate \<Rightarrow> uuid \<Rightarrow> string + CloneGateSnapshot" where
  "capture_clone_security g kid =
     bind_res (ok_or (map_of (records g) kid) ''clone parent is not registered'') (\<lambda>r.
       if has_active_agent_tool_calls (cgroups g) (rec_pid r) then Inl ''clone parent has live tool execution''
       else bind_res (ok_or (get_label (mac g) (rec_pid r)) ''clone parent MAC label unavailable'') (\<lambda>label.
         Inr \<lparr>clone_capabilities = rec_caps r, clone_cgroup = rec_cgroup r, clone_namespaces = rec_namespaces r,
              mac_label = label, clone_authorization = authorization_revision r\<rparr>))"

definition with_clone_security :: "SyscallGate \<Rightarrow> uuid \<Rightarrow> CloneGateSnapshot \<Rightarrow> (unit \<Rightarrow> 'a) \<Rightarrow> string + 'a" where
  "with_clone_security g kid captured commit =
     bind_res (ok_or (map_of (records g) kid) ''clone parent registration was revoked'') (\<lambda>r.
       if has_active_agent_tool_calls (cgroups g) (rec_pid r) then Inl ''clone parent has live tool execution''
       else if rec_caps r \<noteq> clone_capabilities captured \<or> rec_cgroup r \<noteq> clone_cgroup captured
         \<or> rec_namespaces r \<noteq> clone_namespaces captured
         \<or> authorization_revision r \<noteq> clone_authorization captured
         \<or> get_label (mac g) (rec_pid r) \<noteq> Some (mac_label captured)
       then Inl ''clone parent authorization changed during creation''
       else Inr (commit ()))"

definition shares_namespace :: "SyscallGate \<Rightarrow> uuid \<Rightarrow> uuid \<Rightarrow> bool" where
  "shares_namespace g a b =
     (case (map_of (records g) a, map_of (records g) b) of
        (Some ra, Some rb) \<Rightarrow> rec_namespaces ra = [] \<or> rec_namespaces rb = [] \<or>
          (\<exists>n\<in>set (rec_namespaces ra). n \<in> set (rec_namespaces rb))
      | _ \<Rightarrow> True)"

definition gate_allows :: "SyscallGate \<Rightarrow> uuid \<Rightarrow> uuid \<Rightarrow> bool" where
  "gate_allows g from to = shares_namespace g from to"

section \<open>A tool call\<close>

definition tool_namespace_state :: "SyscallGate \<Rightarrow> string \<Rightarrow> ToolNamespaceState" where
  "tool_namespace_state g tool = \<lparr>tns_namespace = map_of (tool_namespaces g) tool, tns_revision = tool_namespace_revision g\<rparr>"

definition authorization_snapshot_locked :: "SyscallGate \<Rightarrow> uuid \<Rightarrow> string \<Rightarrow> GateDenial + ToolAuthorizationSnapshot" where
  "authorization_snapshot_locked g kid tool =
     bind_res (ok_or (map_of (records g) kid) UnknownAgent) (\<lambda>r.
       Inr \<lparr>snap_agent = \<lparr>snap_pid = rec_pid r, snap_caps = rec_caps r, snap_cgroup = rec_cgroup r,
              snap_cgroup_revision = cgroup_revision r, snap_accepting = accepting_tool_calls r,
              snap_namespaces = rec_namespaces r, snap_registration = registration_revision r,
              snap_authorization = authorization_revision r\<rparr>,
            snap_tool_namespace = tool_namespace_state g tool, snap_mac_revision = mac_revision g\<rparr>)"

definition acquire_tool_call_for_record ::
    "SyscallGate \<Rightarrow> cgroup_id \<Rightarrow> pid \<Rightarrow> bool \<Rightarrow> (GateDenial failure + ToolCallGuard) \<times> SyscallGate" where
  "acquire_tool_call_for_record g cgroup p accepting =
     (if \<not> accepting then (Inl (Err (CgroupUnavailable AdmissionClosed)), tally (denied_cgroup_update (\<lambda>n. n + 1)) g)
      else case acquire_tool_call_for_agent (cgroups g) cgroup p of
        (Inr guard, m) \<Rightarrow> (Inr guard, g\<lparr>cgroups := m\<rparr>)
      | (Inl e, m) \<Rightarrow>
          (Inl (Err (case e of ToolCallLimit _ _ \<Rightarrow> CgroupToolLimit | other \<Rightarrow> CgroupUnavailable (CgroupReason other))),
           tally (denied_cgroup_update (\<lambda>n. n + 1)) (g\<lparr>cgroups := m\<rparr>)))"

definition acquire_tool_call_if_unchanged ::
    "SyscallGate \<Rightarrow> uuid \<Rightarrow> string \<Rightarrow> ToolAuthorizationSnapshot
      \<Rightarrow> (GateDenial failure + ToolCallGuard) \<times> SyscallGate" where
  "acquire_tool_call_if_unchanged g kid tool expected =
     (case authorization_snapshot_locked g kid tool of
        Inl d \<Rightarrow> (Inl (Err d), g)
      | Inr current \<Rightarrow>
          if current \<noteq> expected then (Inl (Err AuthorizationStateChanged), g)
          else acquire_tool_call_for_record g (snap_cgroup (snap_agent current)) (snap_pid (snap_agent current))
                 (snap_accepting (snap_agent current)))"

definition acquire_tool_call :: "SyscallGate \<Rightarrow> uuid \<Rightarrow> (GateDenial failure + ToolCallGuard) \<times> SyscallGate" where
  "acquire_tool_call g kid =
     (case map_of (records g) kid of
        None \<Rightarrow> (Inl (Err UnknownAgent), g)
      | Some r \<Rightarrow> acquire_tool_call_for_record g (rec_cgroup r) (rec_pid r) (accepting_tool_calls r))"

text \<open>A refused call: its bucket, the agent's own counters, the verdict.\<close>

definition refuse ::
    "(GateStats \<Rightarrow> GateStats) \<Rightarrow> uuid \<Rightarrow> GateDenial \<Rightarrow> SyscallGate \<Rightarrow> (GateDenial failure + 'a) \<times> SyscallGate" where
  "refuse bucket kid d g = (Inl (Err d), record_agent_denial (tally bucket g) kid d)"

fun missing_capability :: "CapabilitySet \<Rightarrow> u64 list \<Rightarrow> u64 option" where
  "missing_capability caps [] = None"
| "missing_capability caps (c # cs) = (if \<not> cap_has caps c then Some c else missing_capability caps cs)"

text \<open>Section one: the snapshot, and the checks that need nothing else.\<close>

definition begin_check ::
    "SyscallGate \<Rightarrow> uuid \<Rightarrow> ToolCallContract \<Rightarrow> (GateDenial failure + ToolAuthorizationSnapshot) \<times> SyscallGate" where
  "begin_check g kid c =
     (case authorization_snapshot_locked g kid (tc_tool c) of
        Inl UnknownAgent \<Rightarrow> refuse (denied_unknown_update (\<lambda>n. n + 1)) kid UnknownAgent g
      | Inl other \<Rightarrow> (Inl (Err other), g)
      | Inr snapshot \<Rightarrow>
          let agent = snap_agent snapshot in
          if \<not> snap_accepting agent then
            refuse (denied_cgroup_update (\<lambda>n. n + 1)) kid (CgroupUnavailable AdmissionClosed) g
          else case tns_namespace (snap_tool_namespace snapshot) of
            Some ns \<Rightarrow>
              if ns \<notin> set (snap_namespaces agent)
              then refuse (denied_namespace_update (\<lambda>n. n + 1)) kid (NotInNamespace (tc_tool c) ns) g
              else (case missing_capability (snap_caps agent) (tc_capabilities c) of
                  Some cap \<Rightarrow> refuse (denied_capability_update (\<lambda>n. n + 1)) kid (MissingCapability cap) g
                | None \<Rightarrow> (Inr snapshot, g))
          | None \<Rightarrow> (case missing_capability (snap_caps agent) (tc_capabilities c) of
                Some cap \<Rightarrow> refuse (denied_capability_update (\<lambda>n. n + 1)) kid (MissingCapability cap) g
              | None \<Rightarrow> (Inr snapshot, g)))"

definition audit_event :: "digest \<Rightarrow> uuid \<Rightarrow> pid \<Rightarrow> ToolCallContract \<Rightarrow> AuditDecision \<Rightarrow> AuditEvent" where
  "audit_event sha256 kid p c d = \<lparr>ev_agent = kid, ev_pid = p, ev_tool = tc_tool c, ev_action = tc_action c,
     ev_resource = opaque_identity sha256 (tc_resource c), ev_decision = d\<rparr>"

text \<open>Section two, under the engine's lock: the access control verdict.\<close>

definition mac_stage ::
    "digest \<Rightarrow> SyscallGate \<Rightarrow> uuid \<Rightarrow> ToolCallContract \<Rightarrow> bool \<Rightarrow> ToolAuthorizationSnapshot
      \<Rightarrow> (GateDenial failure + bool) \<times> SyscallGate" where
  "mac_stage sha256 g kid c count_success snapshot =
     (let p = snap_pid (snap_agent snapshot) in
      case check (mac g) p (tc_action c) (tc_resource c) of
        Deny \<Rightarrow>
          let d = MacDeny (tc_action c) (opaque_identity sha256 (tc_resource c)) in
          (Inl (Err d), emit_audit (record_agent_denial (tally (denied_mac_update (\<lambda>n. n + 1)) g) kid d)
             (audit_event sha256 kid p c AuditDenied))
      | Audit \<Rightarrow> (Inr True,
          if count_success then emit_audit (tally (audited_update (\<lambda>n. n + 1)) g) (audit_event sha256 kid p c AuditAllowed)
          else g)
      | Allow \<Rightarrow> (Inr False, g))"

text \<open>Section three: is the exact approval there?\<close>

definition refuse_approval ::
    "digest \<Rightarrow> uuid \<Rightarrow> pid \<Rightarrow> ToolCallContract \<Rightarrow> SyscallGate \<Rightarrow> (GateDenial failure + 'a) \<times> SyscallGate" where
  "refuse_approval sha256 kid p c g =
     (let d = ApprovalRequired (tc_tool c) (tc_approval c) in
      (Inl (Err d), emit_audit (record_agent_denial (tally (denied_approval_update (\<lambda>n. n + 1)) g) kid d)
         (audit_event sha256 kid p c AuditDenied)))"

definition approval_stage ::
    "digest \<Rightarrow> SyscallGate \<Rightarrow> uuid \<Rightarrow> ToolCallContract \<Rightarrow> ToolAuthorizationSnapshot
      \<Rightarrow> (GateDenial failure + (ApprovalKey \<times> ApprovalPolicy) option) \<times> SyscallGate" where
  "approval_stage sha256 g kid c snapshot =
     (if tc_approval c \<noteq> NoApproval then
        (case tc_contract c of
           None \<Rightarrow> (Inl Panic, g)
         | Some contract \<Rightarrow>
             let agent = snap_agent snapshot;
                 key = approval_key sha256 kid (snap_registration agent) (tc_tool c) (tc_resource c) contract in
             if \<not> approved g key (tc_approval c) then refuse_approval sha256 kid (snap_pid agent) c g
             else (Inr (Some (key, tc_approval c)), g))
      else (Inr None, g))"

text \<open>Section four of a call that is only checked: the membership must be live.\<close>

definition finish_check ::
    "SyscallGate \<Rightarrow> uuid \<Rightarrow> bool \<Rightarrow> ToolAuthorizationSnapshot \<Rightarrow> bool \<Rightarrow> (GateDenial failure + unit) \<times> SyscallGate" where
  "finish_check g kid count_success snapshot was_audited =
     (if \<not> count_success then (Inr (), g)
      else case quota_constraints_for_agent (cgroups g) (snap_cgroup (snap_agent snapshot)) (snap_pid (snap_agent snapshot)) of
        Inl e \<Rightarrow> refuse (denied_cgroup_update (\<lambda>n. n + 1)) kid (CgroupUnavailable (CgroupReason e)) g
      | Inr _ \<Rightarrow> (Inr (), record_agent_allowed (tally (allowed_update (\<lambda>n. n + 1)) g) kid was_audited))"

definition check_tool_call_contract ::
    "digest \<Rightarrow> SyscallGate \<Rightarrow> uuid \<Rightarrow> ToolCallContract \<Rightarrow> bool
      \<Rightarrow> (GateDenial failure + AuthorizedToolCall) \<times> SyscallGate" where
  "check_tool_call_contract sha256 g kid c count_success =
     (if unconfined g then
        (Inr \<lparr>auth_pid = 0, auth_audited = False, auth_pending = None, auth_snapshot = None\<rparr>,
         if count_success then record_agent_allowed (tally (allowed_update (\<lambda>n. n + 1)) g) kid False else g)
      else
        bind_st (begin_check g kid c) (\<lambda>snapshot g.
        bind_st (mac_stage sha256 g kid c count_success snapshot) (\<lambda>was_audited g.
        bind_st (approval_stage sha256 g kid c snapshot) (\<lambda>pend g.
        bind_st (finish_check g kid count_success snapshot was_audited) (\<lambda>_ g.
          (Inr \<lparr>auth_pid = snap_pid (snap_agent snapshot), auth_audited = was_audited, auth_pending = pend,
                auth_snapshot = Some snapshot\<rparr>, g))))))"

section \<open>Admission\<close>

text \<open>
  An executing call is checked without counting it, takes its slot if nothing it was checked
  against has changed, spends its approval, and is then counted. The guard of a call whose
  approval is gone is dropped on return.
\<close>

definition slot_stage ::
    "SyscallGate \<Rightarrow> uuid \<Rightarrow> string \<Rightarrow> ToolAuthorizationSnapshot option
      \<Rightarrow> (GateDenial failure + ToolCallGuard) \<times> SyscallGate" where
  "slot_stage g kid tool snapshot =
     (if unconfined g then
        (case acquire_tool_call_checked (cgroups g) (root_id (cgroups g)) of
           (Inl e, m) \<Rightarrow> (Inl (Err (CgroupUnavailable (CgroupReason e))), g\<lparr>cgroups := m\<rparr>)
         | (Inr guard, m) \<Rightarrow> (Inr guard, g\<lparr>cgroups := m\<rparr>))
      else case snapshot of
        None \<Rightarrow> (Inl Panic, g)
      | Some s \<Rightarrow> (case acquire_tool_call_if_unchanged g kid tool s of
            (Inl (Err d), g') \<Rightarrow> (Inl (Err d), record_agent_denial g' kid d)
          | (Inl Panic, g') \<Rightarrow> (Inl Panic, g')
          | (Inr guard, g') \<Rightarrow> (Inr guard, g')))"

definition peripheral_activity_identity ::
    "serializer \<Rightarrow> digest \<Rightarrow> string \<Rightarrow> string \<Rightarrow> string \<Rightarrow> GateDenial failure + string" where
  "peripheral_activity_identity to_vec sha256 tool contract request =
     (case to_vec (JObject [(''approval_contract_digest'', JString contract), (''request_identity'', JString request),
             (''tool_name'', JString tool), (''version'', JNumber ''1'')]) of
        Inl _ \<Rightarrow> Inl Panic
      | Inr bytes \<Rightarrow> Inr (opaque_identity sha256 bytes))"

definition consume_stage ::
    "SyscallGate \<Rightarrow> uuid \<Rightarrow> (ApprovalKey \<times> ApprovalPolicy) option \<Rightarrow> string option \<Rightarrow> uuid
      \<Rightarrow> (bool \<times> lease option) \<times> SyscallGate" where
  "consume_stage g kid pend identity fresh =
     (let (satisfied, g1) =
        (if unconfined g then (True, g)
         else case pend of
           Some (key, required) \<Rightarrow>
             if approved g key required then (True, g\<lparr>approvals := AList.delete key (approvals g)\<rparr>) else (False, g)
         | None \<Rightarrow> (False, g)) in
      case (if satisfied then identity else None) of
        None \<Rightarrow> ((satisfied, None), g1)
      | Some i \<Rightarrow> (case lease_new (activity g1) kid i fresh of (l, act) \<Rightarrow> ((satisfied, Some l), g1\<lparr>activity := act\<rparr>)))"

definition drop_guard :: "SyscallGate \<Rightarrow> ToolCallGuard \<Rightarrow> SyscallGate" where
  "drop_guard g guard = g\<lparr>cgroups := release_tool_call (cgroups g) guard\<rparr>"

definition conclude_stage ::
    "digest \<Rightarrow> SyscallGate \<Rightarrow> uuid \<Rightarrow> ToolCallContract \<Rightarrow> AuthorizedToolCall \<Rightarrow> ToolCallGuard \<Rightarrow> bool \<Rightarrow> lease option \<Rightarrow> string
      \<Rightarrow> (GateDenial failure + pid \<times> ToolCallGuard \<times> GateAdmissionProof) \<times> SyscallGate" where
  "conclude_stage sha256 g kid c call guard satisfied l request =
     (if auth_pending call \<noteq> None \<and> \<not> satisfied then
        (case refuse_approval sha256 kid (auth_pid call) c g of (r, g') \<Rightarrow> (r, drop_guard g' guard))
      else
        let g1 = record_agent_allowed (tally (allowed_update (\<lambda>n. n + 1)) g) kid (auth_audited call);
            g2 = (if auth_audited call
                  then emit_audit (tally (audited_update (\<lambda>n. n + 1)) g1) (audit_event sha256 kid (auth_pid call) c AuditAllowed)
                  else g1) in
        (Inr (auth_pid call, guard, \<lparr>proof_agent = kid, proof_request_identity = request,
           approval_satisfied = satisfied, peripheral_activity = l\<rparr>), g2))"

definition contract_of :: "string \<Rightarrow> string \<Rightarrow> ToolSecurity \<Rightarrow> string option \<Rightarrow> ToolCallContract" where
  "contract_of tool resource sec contract = \<lparr>tc_tool = tool, tc_resource = resource,
     tc_action = action_str (sec_action sec), tc_capabilities = required_capabilities sec,
     tc_approval = approval_policy sec, tc_contract = contract\<rparr>"

definition authorize_and_acquire_tool_call_declared_contract ::
    "serializer \<Rightarrow> digest \<Rightarrow> SyscallGate \<Rightarrow> uuid \<Rightarrow> string \<Rightarrow> string \<Rightarrow> ToolSecurity \<Rightarrow> GateAdmissionContract \<Rightarrow> uuid
      \<Rightarrow> (GateDenial failure + pid \<times> ToolCallGuard \<times> GateAdmissionProof) \<times> SyscallGate" where
  "authorize_and_acquire_tool_call_declared_contract to_vec sha256 g kid tool resource sec admission fresh =
     (let c = contract_of tool resource sec (Some (approval_contract admission)) in
      bind_st (check_tool_call_contract sha256 g kid c False) (\<lambda>call g.
      bind_st (slot_stage g kid tool (auth_snapshot call)) (\<lambda>guard g.
      bind_st (if track_peripheral_activity admission
               then (case peripheral_activity_identity to_vec sha256 tool (approval_contract admission)
                       (request_identity_of admission) of
                   Inl e \<Rightarrow> (Inl e, drop_guard g guard) | Inr i \<Rightarrow> (Inr (Some i), g))
               else (Inr None, g)) (\<lambda>identity g.
        case consume_stage g kid (auth_pending call) identity fresh of ((satisfied, l), g) \<Rightarrow>
          conclude_stage sha256 g kid c call guard satisfied l (request_identity_of admission)))))"

text \<open>The checks that take no slot. The declaration's serialised form is its approval contract.\<close>

definition check_tool_call_declared ::
    "(json \<Rightarrow> string) \<Rightarrow> digest \<Rightarrow> SyscallGate \<Rightarrow> uuid \<Rightarrow> string \<Rightarrow> string \<Rightarrow> ToolSecurity
      \<Rightarrow> (GateDenial failure + pid) \<times> SyscallGate" where
  "check_tool_call_declared show_json sha256 g kid tool resource sec =
     bind_st (check_tool_call_contract sha256 g kid
         (contract_of tool resource sec (Some (show_json (security_json sec)))) True)
       (\<lambda>call g. (Inr (auth_pid call), g))"

definition check_tool_call ::
    "(json \<Rightarrow> string) \<Rightarrow> digest \<Rightarrow> (string \<times> ToolSecurity) list \<Rightarrow> SyscallGate \<Rightarrow> uuid \<Rightarrow> string \<Rightarrow> string
      \<Rightarrow> (GateDenial failure + pid) \<times> SyscallGate" where
  "check_tool_call show_json sha256 catalog g kid tool resource =
     (if \<not> unconfined g then
        (case map_of catalog tool of
           None \<Rightarrow> refuse (denied_unknown_update (\<lambda>n. n + 1)) kid (UnknownTool tool) g
         | Some sec \<Rightarrow> check_tool_call_declared show_json sha256 g kid tool resource sec)
      else
        let act = classify_tool catalog tool in
        bind_st (check_tool_call_contract sha256 g kid
            \<lparr>tc_tool = tool, tc_resource = resource, tc_action = ta_action act,
             tc_capabilities = (case ta_required_cap act of None \<Rightarrow> [] | Some cap \<Rightarrow> [cap]),
             tc_approval = NoApproval, tc_contract = None\<rparr> True)
          (\<lambda>call g. (Inr (auth_pid call), g)))"

end
