(* ===== verification/Cgroup_Members.thy ===== *)
theory Cgroup_Members
  imports Cgroup_Calls
begin

text \<open>
  What every control-group operation does to the membership lists: only adding, removing and
  moving an agent changes them.
\<close>

named_theorems mem_simps

lemma mem_upd_same [mem_simps]: "(\<And>g. cg_members (f g) = cg_members g) \<Longrightarrow> mem (upd_group i f m) = mem m"
  by (auto simp: mem_upd_group fun_eq_iff mem_def split: option.split)

lemma mem_fold_same [mem_simps]:
  "(\<And>g. cg_members (f g) = cg_members g) \<Longrightarrow> mem (fold (\<lambda>i. upd_group i f) ps m) = mem m"
  by (induction ps arbitrary: m) (simp_all add: mem_upd_same)

lemma mem_groups [mem_simps]: "groups m' = groups m \<Longrightarrow> mem m' = mem m"
  by (simp add: fun_eq_iff mem_def)

lemma mem_rollback [mem_simps]: "mem (rollback_tool_calls m ids) = mem m"
  by (simp add: rollback_tool_calls_def mem_fold_same)

lemma mem_acquire_slots: "mem (snd (acquire_slots m hs acq)) = mem m"
  by (induction hs arbitrary: m acq) (simp_all add: mem_rollback mem_upd_same split: option.split)

lemma mem_reserve_agent: "mem (snd (reserve_agent m a)) = mem m"
  by (rule mem_groups) (simp add: reserve_agent_def Let_def split: option.split)

lemma mem_acquire_hierarchy: "mem (snd (acquire_tool_call_for_hierarchy m hs ao)) = mem m"
proof -
  obtain r m1 where r: "acquire_slots m hs [] = (r, m1)" by (cases "acquire_slots m hs []")
  have "mem m1 = mem m" using mem_acquire_slots [of m hs "[]"] r by simp
  with mem_reserve_agent [of m1] show ?thesis
    by (auto simp: acquire_tool_call_for_hierarchy_def r split: sum.split option.split prod.split) (metis snd_conv)+
qed

lemma mem_acquire:
  "acquire_tool_call_checked m i = (r, m') \<Longrightarrow> mem m' = mem m"
  "acquire_tool_call_for_agent m i a = (r', m'') \<Longrightarrow> mem m'' = mem m"
  using mem_acquire_hierarchy [of m]
  by (auto simp: acquire_tool_call_checked_def acquire_tool_call_for_agent_def split: sum.splits if_splits) (metis snd_conv)+

lemma mem_sel [mem_simps]:
  "mem (m\<lparr>active_tool_calls_by_agent := v\<rparr>) = mem m" "mem (m\<lparr>tool_call_generations := w\<rparr>) = mem m"
  "mem (m\<lparr>active_tool_calls_by_agent := v, tool_call_generations := w\<rparr>) = mem m"
  by (simp_all add: fun_eq_iff mem_def)

lemma mem_release: "mem (release_tool_call m gd) = mem m"
  by (simp add: release_tool_call_def Let_def mem_rollback mem_sel split: option.split prod.split)

lemma mem_limits: "update_limits m i l = Inr m' \<Longrightarrow> mem m' = mem m"
  by (auto simp: update_limits_def Let_def res_simps mem_upd_same simp del: bind_res_simps split: if_splits)

lemma mem_create:
  assumes tree: "tree_ok m" and r: "create_scoped m name parent scope limits = (res, m')"
  shows "mem m' = mem m"
  using tree r
proof (cases rule: create_scoped_cases)
  case (1 e)
  have "mem (m\<lparr>next_cgroup_id := next_cgroup_id m + 1\<rparr>) = mem m" by (rule mem_groups) simp
  with 1 show ?thesis by auto
next
  case (2 i pg)
  note fresh = tree_fresh [OF tree, folded 2(2)]
  show ?thesis using 2(3) fresh unfolding 2(6) by (auto simp: fun_eq_iff mem_def map_of_update)
qed

lemma mem_leaf:
  assumes "try_remove_empty_leaf m i = Inr m'"
  shows "mem m' = mem m"
  using assms by (rule try_remove_empty_leaf_Inr) (auto simp: fun_eq_iff mem_def map_of_delete map_of_map_entry)

lemma mem_add:
  assumes "add_agent m i a = Inr m'"
  shows "set (mem m' j) = (if j = i then insert a (set (mem m i)) else set (mem m j))"
proof -
  from assms obtain g where "grp m i = Some g" "m' = upd_group i (\<lambda>g. set_members (cg_members g @ [a]) g) m"
    by (auto simp: add_agent_def res_simps simp del: bind_res_simps split: if_splits)
  then show ?thesis by (auto simp: mem_upd_group mem_def)
qed

lemma mem_remove:
  assumes ok: "members_ok m" and r: "try_remove_agent m i a = Inr m'"
  shows "set (mem m' j) = (if j = i then set (mem m i) - {a} else set (mem m j))" and "a \<in> set (mem m i)"
proof -
  from r obtain g k where g: "grp m i = Some g" and k: "position (\<lambda>x. x = a) (cg_members g) = Some k"
    and m': "m' = (upd_group i (\<lambda>g. set_members (swap_remove k (cg_members g)) g) m)
      \<lparr>tool_call_generations := AList.delete a (tool_call_generations m)\<rparr>"
    by (auto simp: try_remove_agent_def res_simps simp del: bind_res_simps)
  have "mem m' = mem (upd_group i (\<lambda>g. set_members (swap_remove k (cg_members g)) g) m)"
    by (rule mem_groups) (simp add: m')
  with members_remove(2) [OF ok g k, of j] show "set (mem m' j) = (if j = i then set (mem m i) - {a} else set (mem m j))" by simp
  show "a \<in> set (mem m i)" using g k by (auto simp: mem_def position_Some_iff)
qed

lemma mem_force:
  assumes ok: "tree_ok m" "members_ok m" and r: "force_remove_agent m i a = (res, m')"
  shows "case res of Inl _ \<Rightarrow> m' = m
    | Inr _ \<Rightarrow> \<forall>j. set (mem m' j) = (if j = i then set (mem m i) - {a} else set (mem m j))"
  using ok(1) r
proof (cases rule: force_cases)
  case (unchanged e)
  then show ?thesis by simp
next
  case (revoked g hs k active m3)
  have groups3: "mem m3 = mem m"
    unfolding revoked(5) using mem_groups [of "revoke m a" m] by (simp add: mem_fold_same)
  have members3: "members_ok m3"
  proof -
    note gr = groups_frame [OF revoke_sel(1) [of m a]]
    have t: "tree_ok (revoke m a)" using ok(1) tree_ok_frame [OF gr(1)] by simp
    from fold_frame(2) [OF t gr(5) [OF ok(2)] path_distinct [OF ok(1) revoked(3)], of "sub_calls active"] gr(5) [OF ok(2)]
    show ?thesis unfolding revoked(5) by simp
  qed
  from revoked(1) groups3 have "mem m3 i = cg_members g" by (simp add: mem_def)
  moreover have "position (\<lambda>x. x = a) (mem m i) = Some k" using revoked(1,2) by (simp add: mem_def)
  ultimately obtain h where h: "grp m3 i = Some h" "position (\<lambda>x. x = a) (cg_members h) = Some k"
    using revoked(2) by (cases "grp m3 i") (auto simp: mem_def position_Some_iff)
  show ?thesis using members_remove(2) [OF members3 h] groups3 by (simp add: revoked(6,7))
qed

lemma mem_move:
  assumes ok: "calls_ok (m, gs)" and r: "try_move_agent m i j a = Inr m'" and b: "b \<noteq> a"
  shows "b \<in> set (mem m' k) \<longleftrightarrow> b \<in> set (mem m k)"
proof (cases "m' = m")
  case False
  let ?add = "\<lambda>g. set_members (cg_members g @ [a]) g" and ?del = "\<lambda>k g. set_members (swap_remove k (cg_members g)) g"
  from move_cases [OF r] False obtain g n where ne: "i \<noteq> j"
    and g: "grp (upd_group j ?add m) i = Some g" and n: "position (\<lambda>x. x = a) (cg_members g) = Some n"
    and m': "m' = upd_group i (?del n) (upd_group j ?add m)" by blast
  from g ne have gi: "grp m i = Some g" by simp
  moreover have "group_ok g" using ok gi by (simp add: calls_parts members_ok_def)
  ultimately have "set (swap_remove n (cg_members g)) = set (mem m i) - {a}"
    using group_ok_remove(2) [OF _ n] by (simp add: mem_def)
  with gi ne b show ?thesis by (auto simp: m' mem_upd_group mem_def split: option.split)
qed simp

end
