(* ===== verification/Gate_System.thy ===== *)
theory Gate_System
  imports Syscall_Gate Cgroup_Members
begin

text \<open>
  The gate under concurrency. A state is the gate, the guards of the admitted calls, and the
  engine a policy mutator that holds the engine's lock is about to store. A step is one
  section of one operation, so that a run is any interleaving of the sections of any number of
  calls and of all administrative operations. Steps that grant or spend an approval are
  labelled with its key.
\<close>

section \<open>Frames\<close>

text \<open>Everything but counters and audit events.\<close>

definition same_core :: "SyscallGate \<Rightarrow> SyscallGate \<Rightarrow> bool" where
  "same_core g' g \<longleftrightarrow> mac g' = mac g \<and> mac_revision g' = mac_revision g \<and> cgroups g' = cgroups g \<and>
     unconfined g' = unconfined g \<and> default_cgroup g' = default_cgroup g \<and> records g' = records g \<and>
     tool_namespaces g' = tool_namespaces g \<and> tool_namespace_revision g' = tool_namespace_revision g \<and>
     approvals g' = approvals g \<and> activity g' = activity g \<and> next_pid g' = next_pid g \<and>
     next_cgroup_revision g' = next_cgroup_revision g \<and> next_authorization_revision g' = next_authorization_revision g"

named_theorems core_frames

lemma same_core_refl [core_frames, simp]: "same_core g g"
  by (simp add: same_core_def)

lemma same_core_trans: "same_core g2 g1 \<Longrightarrow> same_core g3 g2 \<Longrightarrow> same_core g3 g1"
  by (simp add: same_core_def)

lemma counters_core [core_frames, simp]:
  "same_core (tally f g) h = same_core g h"
  "same_core (record_agent_allowed g a b) h = same_core g h"
  "same_core (record_agent_denial g a d) h = same_core g h"
  "same_core (emit_audit g ev) h = same_core g h"
  "same_core (purge_agent_stats g a) h = same_core g h"
  "same_core (set_audit_sink g) h = same_core g h"
  by (simp_all add: same_core_def tally_def record_agent_allowed_def record_agent_denial_def emit_audit_def
      purge_agent_stats_def set_audit_sink_def)

lemma begin_check_core: "begin_check g kid c = (r, g') \<Longrightarrow> same_core g' g"
  by (auto simp: begin_check_def refuse_def Let_def split: sum.splits GateDenial.splits option.splits if_splits)

lemma mac_stage_core: "mac_stage sha256 g kid c cs s = (r, g') \<Longrightarrow> same_core g' g"
  by (auto simp: mac_stage_def Let_def split: MacDecision.splits if_splits)

lemma approval_stage_core: "approval_stage sha256 g kid c s = (r, g') \<Longrightarrow> same_core g' g"
  by (auto simp: approval_stage_def refuse_approval_def Let_def split: option.splits if_splits)

lemma finish_check_core: "finish_check g kid cs s a = (r, g') \<Longrightarrow> same_core g' g"
  by (auto simp: finish_check_def refuse_def split: sum.splits if_splits)

lemma refuse_approval_core: "refuse_approval sha256 kid p c g = (r, g') \<Longrightarrow> same_core g' g"
  by (auto simp: refuse_approval_def Let_def)

lemmas stage_cores = begin_check_core mac_stage_core approval_stage_core finish_check_core refuse_approval_core

section \<open>Steps\<close>

datatype label = Tau | Grant ApprovalKey | Spend ApprovalKey

type_synonym gsys = "SyscallGate \<times> ToolCallGuard list \<times> MacEngine option"

text \<open>Identifiers and revisions do not wrap.\<close>

definition room :: "SyscallGate \<Rightarrow> bool" where
  "room g \<longleftrightarrow> unat (next_pid g) < 2 ^ 64 - 1 \<and> unat (next_authorization_revision g) < 2 ^ 64 - 1 \<and>
     unat (next_cgroup_revision g) < 2 ^ 64 - 1 \<and> unat (mac_revision g) < 2 ^ 64 - 1"

inductive gstep :: "digest \<Rightarrow> gsys \<Rightarrow> label \<Rightarrow> gsys \<Rightarrow> bool" for sha256 where
  register: "room g \<Longrightarrow> try_register_agent_with_admission g kid caps cg managed acc = (r, g') \<Longrightarrow>
    gstep sha256 (g, gs, p) Tau (g', gs, p)"
| unregister: "try_unregister_agent g kid = (r, g') \<Longrightarrow> gstep sha256 (g, gs, p) Tau (g', gs, p)"
| force_unregister: "force_unregister_agent g kid = (r, g') \<Longrightarrow> gstep sha256 (g, gs, p) Tau (g', gs, p)"
| set_cgroup: "room g \<Longrightarrow> try_set_cgroup g kid cg = (r, g') \<Longrightarrow> gstep sha256 (g, gs, p) Tau (g', gs, p)"
| tag: "gstep sha256 (g, gs, p) Tau (register_tool_namespace g tool ns, gs, p)"
| untag: "gstep sha256 (g, gs, p) Tau (unregister_tool_namespace g tool, gs, p)"
| set_namespaces: "room g \<Longrightarrow> gstep sha256 (g, gs, p) Tau (set_agent_namespaces g kid nss, gs, p)"
| add_namespace: "room g \<Longrightarrow> gstep sha256 (g, gs, p) Tau (add_agent_namespace g kid ns, gs, p)"
| set_caps: "room g \<Longrightarrow> gstep sha256 (g, gs, p) Tau (set_capabilities g kid caps, gs, p)"
| close: "room g \<Longrightarrow> close_tool_admission g kid = (r, g') \<Longrightarrow> gstep sha256 (g, gs, p) Tau (g', gs, p)"
| reopen: "room g \<Longrightarrow> reopen_tool_admission g kid = (r', g') \<Longrightarrow> gstep sha256 (g, gs, p) Tau (g', gs, p)"
| grant: "grant_tool_approval_contract sha256 g kid tool res con pol = (True, g') \<Longrightarrow> map_of (records g) kid = Some rc \<Longrightarrow>
    gstep sha256 (g, gs, p) (Grant (approval_key sha256 kid (registration_revision rc) tool res con)) (g', gs, p)"
| revoke: "revoke_tool_approval_contract sha256 g kid tool res con = (b, g') \<Longrightarrow> gstep sha256 (g, gs, p) Tau (g', gs, p)"
| revoke_peripheral: "revoke_peripheral_call_contract sha256 g kid tool res con i = (bn, g') \<Longrightarrow>
    gstep sha256 (g, gs, p) Tau (g', gs, p)"
| cancel: "cancel_peripheral_for_agent g kid = (n, g') \<Longrightarrow> gstep sha256 (g, gs, p) Tau (g', gs, p)"
| drop_lease: "gstep sha256 (g, gs, p) Tau (g\<lparr>activity := lease_drop (activity g) l\<rparr>, gs, p)"
| check1: "begin_check g kid c = (s, g') \<Longrightarrow> gstep sha256 (g, gs, p) Tau (g', gs, p)"
| check2: "mac_stage sha256 g kid c cs snap = (a, g') \<Longrightarrow> gstep sha256 (g, gs, None) Tau (g', gs, None)"
| check3: "approval_stage sha256 g kid c snap = (pd, g') \<Longrightarrow> gstep sha256 (g, gs, p) Tau (g', gs, p)"
| check4: "finish_check g kid cs snap au = (u, g') \<Longrightarrow> gstep sha256 (g, gs, p) Tau (g', gs, p)"
| slot: "length gs < 2 ^ 32 - 1 \<Longrightarrow> slot_stage g kid tool snapo = (Inr gd, g') \<Longrightarrow>
    gstep sha256 (g, gs, p) Tau (g', gd # gs, p)"
| slot_fails: "length gs < 2 ^ 32 - 1 \<Longrightarrow> slot_stage g kid tool snapo = (Inl d, g') \<Longrightarrow> gstep sha256 (g, gs, p) Tau (g', gs, p)"
| spend: "consume_stage g kid (Some (key, pol)) io fresh = ((True, l), g') \<Longrightarrow> gstep sha256 (g, gs, p) (Spend key) (g', gs, p)"
| no_spend: "consume_stage g kid po io fresh = ((False, l), g') \<Longrightarrow> gstep sha256 (g, gs, p) Tau (g', gs, p)"
| conclude: "conclude_stage sha256 g kid c call gd sat l req = (Inr out, g') \<Longrightarrow> gstep sha256 (g, gs, p) Tau (g', gs, p)"
| conclude_fails: "conclude_stage sha256 g kid c call gd sat l req = (Inl d, g') \<Longrightarrow>
    gstep sha256 (g, xs @ gd # ys, p) Tau (g', xs @ ys, p)"
| drop: "gstep sha256 (g, xs @ gd # ys, p) Tau (drop_guard g gd, xs @ ys, p)"
| mac_begin: "room g \<Longrightarrow> gstep sha256 (g, gs, None) Tau (bump_mac_revision g, gs, Some e)"
| mac_commit: "gstep sha256 (g, gs, Some e) Tau (g\<lparr>mac := e\<rparr>, gs, None)"
| group_create: "unat (next_cgroup_id (cgroups g)) < 2 ^ 64 - 1 \<Longrightarrow> create_scoped (cgroups g) name parent scope lim = (i, m) \<Longrightarrow>
    gstep sha256 (g, gs, p) Tau (g\<lparr>cgroups := m\<rparr>, gs, p)"
| group_remove: "try_remove_empty_leaf (cgroups g) j = Inr m \<Longrightarrow> gstep sha256 (g, gs, p) Tau (g\<lparr>cgroups := m\<rparr>, gs, p)"
| group_limits: "update_limits (cgroups g) j lim = Inr m \<Longrightarrow> gstep sha256 (g, gs, p) Tau (g\<lparr>cgroups := m\<rparr>, gs, p)"
| sink: "gstep sha256 (g, gs, p) Tau (set_audit_sink g, gs, p)"
| purge: "gstep sha256 (g, gs, p) Tau (purge_agent_stats g kid, gs, p)"

inductive gruns :: "digest \<Rightarrow> gsys \<Rightarrow> label list \<Rightarrow> gsys \<Rightarrow> bool" for sha256 where
  none: "gruns sha256 s [] s"
| more: "gruns sha256 s ls t \<Longrightarrow> gstep sha256 t l u \<Longrightarrow> gruns sha256 s (ls @ [l]) u"

definition gate_reachable :: "digest \<Rightarrow> label list \<Rightarrow> gsys \<Rightarrow> bool" where
  "gate_reachable sha256 ls s \<longleftrightarrow> (\<exists>first enf rules. unat first < 2 ^ 64 - 1 \<and>
     gruns sha256 (with_mac (manager_new first) enf rules, [], None) ls s)"

section \<open>The abstract gate\<close>

text \<open>
  What the gate promises, without its tables: an engine behind a revision, a set of
  registrations (process id, group, registration generation), a set of unspent approvals and the
  control groups with their live guards.
\<close>

record gspec =
  a_engine :: MacEngine
  a_revision :: nat
  a_lock :: "MacEngine option"
  a_regs :: "uuid \<Rightarrow> (pid \<times> cgroup_id \<times> nat) option"
  a_grants :: "ApprovalKey set"
  a_calls :: calls
  a_next_pid :: pid
  a_next_auth :: nat

inductive spec_step :: "gspec \<Rightarrow> label \<Rightarrow> gspec \<Rightarrow> bool" where
  idle: "A \<subseteq> a_grants a \<Longrightarrow> a_next_auth a \<le> n \<Longrightarrow> spec_step a Tau (a\<lparr>a_grants := A, a_next_auth := n\<rparr>)"
| grant: "a_regs a kid = Some (p, cg, unat rv) \<Longrightarrow>
    spec_step a (Grant (kid, rv, t)) (a\<lparr>a_grants := insert (kid, rv, t) (a_grants a)\<rparr>)"
| spend: "k \<in> a_grants a \<Longrightarrow> spec_step a (Spend k) (a\<lparr>a_grants := a_grants a - {k}\<rparr>)"
| calls: "cstep (a_calls a) c \<Longrightarrow> mem (fst c) = mem (fst (a_calls a)) \<Longrightarrow> spec_step a Tau (a\<lparr>a_calls := c\<rparr>)"
| register: "a_regs a kid = None \<Longrightarrow> unat (a_next_pid a) < 2 ^ 64 - 1 \<Longrightarrow> a_calls a = (m, gs) \<Longrightarrow>
    add_agent m cg (a_next_pid a) = Inr m' \<Longrightarrow>
    spec_step a Tau (a\<lparr>a_calls := (m', gs), a_regs := (a_regs a)(kid \<mapsto> (a_next_pid a, cg, a_next_auth a)),
      a_next_pid := a_next_pid a + 1, a_next_auth := Suc (a_next_auth a)\<rparr>)"
| lost_pid: "unat (a_next_pid a) < 2 ^ 64 - 1 \<Longrightarrow> spec_step a Tau (a\<lparr>a_next_pid := a_next_pid a + 1\<rparr>)"
| unregister: "a_regs a kid = Some (p, cg, rv) \<Longrightarrow> a_calls a = (m, gs) \<Longrightarrow>
    try_remove_agent m cg p = Inr m' \<or> force_remove_agent m cg p = (Inr (), m') \<Longrightarrow>
    spec_step a Tau (a\<lparr>a_calls := (m', gs), a_regs := (a_regs a)(kid := None),
      a_grants := {k \<in> a_grants a. fst k \<noteq> kid}\<rparr>)"
| move: "a_regs a kid = Some (p, cg, rv) \<Longrightarrow> a_calls a = (m, gs) \<Longrightarrow> try_move_agent m cg cg' p = Inr m' \<Longrightarrow>
    spec_step a Tau (a\<lparr>a_calls := (m', gs), a_regs := (a_regs a)(kid \<mapsto> (p, cg', rv))\<rparr>)"
| lock: "a_lock a = None \<Longrightarrow> spec_step a Tau (a\<lparr>a_revision := Suc (a_revision a), a_lock := Some e\<rparr>)"
| unlock: "a_lock a = Some e \<Longrightarrow> spec_step a Tau (a\<lparr>a_engine := e, a_lock := None\<rparr>)"

definition regs :: "SyscallGate \<Rightarrow> uuid \<Rightarrow> (pid \<times> cgroup_id \<times> nat) option" where
  "regs g kid = map_option (\<lambda>r. (rec_pid r, rec_cgroup r, unat (registration_revision r))) (map_of (records g) kid)"

definition gate_abs :: "gsys \<Rightarrow> gspec" where
  "gate_abs s = (case s of (g, gs, p) \<Rightarrow>
     \<lparr>a_engine = mac g, a_revision = unat (mac_revision g), a_lock = p, a_regs = regs g,
      a_grants = keys_of (approvals g), a_calls = (cgroups g, gs), a_next_pid = next_pid g,
      a_next_auth = unat (next_authorization_revision g)\<rparr>)"

section \<open>The gate refines it\<close>

lemma abs_idle:
  assumes "mac g' = mac g" "mac_revision g' = mac_revision g" "cgroups g' = cgroups g" "regs g' = regs g"
    "keys_of (approvals g') \<subseteq> keys_of (approvals g)" "next_pid g' = next_pid g"
    "unat (next_authorization_revision g) \<le> unat (next_authorization_revision g')"
  shows "spec_step (gate_abs (g, gs, p)) Tau (gate_abs (g', gs, p))"
proof -
  have "gate_abs (g', gs, p) = (gate_abs (g, gs, p))
      \<lparr>a_grants := keys_of (approvals g'), a_next_auth := unat (next_authorization_revision g')\<rparr>"
    using assms(1-4,6) by (simp add: gate_abs_def)
  moreover have "spec_step (gate_abs (g, gs, p)) Tau ((gate_abs (g, gs, p))
      \<lparr>a_grants := keys_of (approvals g'), a_next_auth := unat (next_authorization_revision g')\<rparr>)"
    using assms(5,7) by (intro spec_step.idle) (simp_all add: gate_abs_def)
  ultimately show ?thesis by simp
qed

lemma abs_hidden [simp]:
  "gate_abs (g\<lparr>tool_namespaces := t, tool_namespace_revision := v\<rparr>, gs, p) = gate_abs (g, gs, p)"
  "gate_abs (g\<lparr>activity := ac\<rparr>, gs, p) = gate_abs (g, gs, p)"
  "spec_step a Tau (a :: gspec)"
  using spec_step.idle [of "a_grants a" a "a_next_auth a"] by (simp_all add: gate_abs_def regs_def [abs_def])

lemma abs_core: "same_core g' g \<Longrightarrow> spec_step (gate_abs (g, gs, p)) Tau (gate_abs (g', gs, p))"
  by (rule abs_idle) (simp_all add: same_core_def regs_def fun_eq_iff)

lemma abs_calls:
  assumes "same_core g' (g\<lparr>cgroups := m\<rparr>)" and "cstep (cgroups g, gs) (m, gs')" and "mem m = mem (cgroups g)"
  shows "spec_step (gate_abs (g, gs, p)) Tau (gate_abs (g', gs', p))"
proof -
  have "gate_abs (g', gs', p) = (gate_abs (g, gs, p))\<lparr>a_calls := (m, gs')\<rparr>"
    using assms(1) by (simp add: gate_abs_def same_core_def regs_def fun_eq_iff)
  moreover have "spec_step (gate_abs (g, gs, p)) Tau ((gate_abs (g, gs, p))\<lparr>a_calls := (m, gs')\<rparr>)"
    using assms(2,3) by (intro spec_step.calls) (simp_all add: gate_abs_def)
  ultimately show ?thesis by simp
qed

text \<open>Single operations.\<close>

lemma unat_Suc_bounded: "unat x < 2 ^ 64 - 1 \<Longrightarrow> unat (x + 1) = Suc (unat x)" for x :: u64
  by (subst unat_add_bounded) auto

lemma revise_abs:
  assumes "room g" and f: "\<And>ar r. rec_pid (f ar r) = rec_pid r \<and> rec_cgroup (f ar r) = rec_cgroup r \<and>
      registration_revision (f ar r) = registration_revision r"
  shows "spec_step (gate_abs (g, gs, p)) Tau (gate_abs (revise kid f g, gs, p))"
proof (rule abs_idle)
  show "regs (revise kid f g) = regs g"
    using f by (auto simp: fun_eq_iff regs_def revise_def Let_def map_of_map_entry option.map_comp comp_def)
  show "unat (next_authorization_revision g) \<le> unat (next_authorization_revision (revise kid f g))"
    using assms(1) by (simp add: revise_def room_def Let_def unat_Suc_bounded)
qed (simp_all add: revise_def Let_def)

lemma namespaces_abs:
  assumes "room g"
  shows "spec_step (gate_abs (g, gs, p)) Tau (gate_abs (set_agent_namespaces g kid nss, gs, p))"
    and "spec_step (gate_abs (g, gs, p)) Tau (gate_abs (add_agent_namespace g kid ns, gs, p))"
    and "spec_step (gate_abs (g, gs, p)) Tau (gate_abs (set_capabilities g kid caps, gs, p))"
    and "close_tool_admission g kid = (r, g') \<Longrightarrow> spec_step (gate_abs (g, gs, p)) Tau (gate_abs (g', gs, p))"
    and "reopen_tool_admission g kid = (r', g'') \<Longrightarrow> spec_step (gate_abs (g, gs, p)) Tau (gate_abs (g'', gs, p))"
  using revise_abs [OF assms] abs_core [of g g]
  by (auto simp: set_agent_namespaces_def add_agent_namespace_def set_capabilities_def close_tool_admission_def
      reopen_tool_admission_def split: option.splits)

lemma register_abs:
  assumes room: "room g" and r: "try_register_agent_with_admission g kid caps cg managed acc = (r, g')"
  shows "spec_step (gate_abs (g, gs, p)) Tau (gate_abs (g', gs, p))"
proof (cases "map_of (records g) kid")
  case (Some rc)
  with r show ?thesis by (auto simp: try_register_agent_with_admission_def intro: abs_core)
next
  case None
  let ?cg = "case cg of Some c \<Rightarrow> c | None \<Rightarrow> default_cgroup g"
  show ?thesis
  proof (cases "add_agent (cgroups g) ?cg (next_pid g)")
    case (Inl e)
    with r None have "gate_abs (g', gs, p) = (gate_abs (g, gs, p))\<lparr>a_next_pid := next_pid g + 1\<rparr>"
      by (auto simp: try_register_agent_with_admission_def Let_def gate_abs_def regs_def fun_eq_iff)
    with room spec_step.lost_pid [of "gate_abs (g, gs, p)"] show ?thesis by (simp add: gate_abs_def room_def)
  next
    case (Inr m)
    have "gate_abs (g', gs, p) = (gate_abs (g, gs, p))\<lparr>a_calls := (m, gs),
        a_regs := (regs g)(kid \<mapsto> (next_pid g, ?cg, unat (next_authorization_revision g))),
        a_next_pid := next_pid g + 1, a_next_auth := Suc (unat (next_authorization_revision g))\<rparr>"
      using r None Inr room
      by (auto simp: try_register_agent_with_admission_def Let_def gate_abs_def regs_def fun_eq_iff map_of_update
          room_def unat_Suc_bounded)
    moreover have "spec_step (gate_abs (g, gs, p)) Tau ((gate_abs (g, gs, p))\<lparr>a_calls := (m, gs),
        a_regs := (a_regs (gate_abs (g, gs, p)))(kid \<mapsto> (a_next_pid (gate_abs (g, gs, p)), ?cg, a_next_auth (gate_abs (g, gs, p)))),
        a_next_pid := a_next_pid (gate_abs (g, gs, p)) + 1, a_next_auth := Suc (a_next_auth (gate_abs (g, gs, p)))\<rparr>)"
      using None Inr room by (intro spec_step.register) (simp_all add: gate_abs_def regs_def room_def)
    ultimately show ?thesis by (simp add: gate_abs_def)
  qed
qed

lemma forget_agent_abs:
  "gate_abs (forget_agent (g\<lparr>cgroups := m\<rparr>) kid, gs, p) = (gate_abs (g, gs, p))\<lparr>a_calls := (m, gs),
     a_regs := (regs g)(kid := None), a_grants := {k \<in> keys_of (approvals g). fst k \<noteq> kid}\<rparr>"
  by (force simp: gate_abs_def forget_agent_def cancel_peripheral_for_agent_def regs_def fun_eq_iff map_of_delete)

lemma unregister_abs:
  assumes "map_of (records g) kid = Some rc"
    and "try_remove_agent (cgroups g) (rec_cgroup rc) (rec_pid rc) = Inr m \<or>
      force_remove_agent (cgroups g) (rec_cgroup rc) (rec_pid rc) = (Inr (), m)"
  shows "spec_step (gate_abs (g, gs, p)) Tau (gate_abs (forget_agent (g\<lparr>cgroups := m\<rparr>) kid, gs, p))"
proof -
  have "spec_step (gate_abs (g, gs, p)) Tau ((gate_abs (g, gs, p))\<lparr>a_calls := (m, gs),
     a_regs := (a_regs (gate_abs (g, gs, p)))(kid := None), a_grants := {k \<in> a_grants (gate_abs (g, gs, p)). fst k \<noteq> kid}\<rparr>)"
    using assms by (intro spec_step.unregister) (simp_all add: gate_abs_def regs_def)
  then show ?thesis unfolding forget_agent_abs by (simp add: gate_abs_def)
qed

lemma try_unregister_abs:
  assumes "try_unregister_agent g kid = (r, g')"
  shows "spec_step (gate_abs (g, gs, p)) Tau (gate_abs (g', gs, p))"
proof (cases "map_of (records g) kid")
  case (Some rc)
  with assms unregister_abs [OF Some] abs_core [of g g] show ?thesis
    by (cases "try_remove_agent (cgroups g) (rec_cgroup rc) (rec_pid rc)") (auto simp: try_unregister_agent_def)
qed (use assms in \<open>auto simp: try_unregister_agent_def intro: abs_core\<close>)

lemma force_unregister_abs:
  assumes ok: "tree_ok (cgroups g)" "members_ok (cgroups g)" and r: "force_unregister_agent g kid = (r, g')"
  shows "spec_step (gate_abs (g, gs, p)) Tau (gate_abs (g', gs, p))"
proof (cases "map_of (records g) kid")
  case (Some rc)
  obtain f m where f: "force_remove_agent (cgroups g) (rec_cgroup rc) (rec_pid rc) = (f, m)" by (cases "force_remove_agent (cgroups g) (rec_cgroup rc) (rec_pid rc)")
  show ?thesis
  proof (cases f)
    case (Inl e)
    with mem_force [OF ok f] have "m = cgroups g" by simp
    with r Some f Inl show ?thesis by (auto simp: force_unregister_agent_def intro: abs_core)
  next
    case (Inr u)
    with r Some f unregister_abs [OF Some, of m] show ?thesis by (simp add: force_unregister_agent_def)
  qed
qed (use r in \<open>auto simp: force_unregister_agent_def intro: abs_core\<close>)

lemma set_cgroup_abs:
  assumes "try_set_cgroup g kid cg = (r, g')"
  shows "spec_step (gate_abs (g, gs, p)) Tau (gate_abs (g', gs, p))"
proof -
  have "g' = g \<or> (\<exists>rc m. map_of (records g) kid = Some rc \<and>
      try_move_agent (cgroups g) (rec_cgroup rc) cg (rec_pid rc) = Inr m \<and>
      g' = g\<lparr>cgroups := m, next_cgroup_revision := next_cgroup_revision g + 1,
        records := AList.map_entry kid (\<lambda>r. r\<lparr>rec_cgroup := cg, cgroup_revision := next_cgroup_revision g,
          cgroup_changes := next_cgroup_revision g\<rparr>) (records g)\<rparr>)"
    using assms by (auto simp: try_set_cgroup_def Let_def split: option.splits if_splits sum.splits failure.splits)
  then show ?thesis
  proof (elim disjE exE conjE)
    assume "g' = g" then show ?thesis by (simp add: abs_core)
  next
    fix rc m
    assume rc: "map_of (records g) kid = Some rc" and mv: "try_move_agent (cgroups g) (rec_cgroup rc) cg (rec_pid rc) = Inr m"
      and g': "g' = g\<lparr>cgroups := m, next_cgroup_revision := next_cgroup_revision g + 1,
        records := AList.map_entry kid (\<lambda>r. r\<lparr>rec_cgroup := cg, cgroup_revision := next_cgroup_revision g,
          cgroup_changes := next_cgroup_revision g\<rparr>) (records g)\<rparr>"
    have "gate_abs (g', gs, p) = (gate_abs (g, gs, p))\<lparr>a_calls := (m, gs),
        a_regs := (regs g)(kid \<mapsto> (rec_pid rc, cg, unat (registration_revision rc)))\<rparr>"
      using rc by (auto simp: gate_abs_def g' regs_def fun_eq_iff map_of_map_entry)
    moreover have "spec_step (gate_abs (g, gs, p)) Tau ((gate_abs (g, gs, p))\<lparr>a_calls := (m, gs),
        a_regs := (a_regs (gate_abs (g, gs, p)))(kid \<mapsto> (rec_pid rc, cg, unat (registration_revision rc)))\<rparr>)"
      using rc mv by (intro spec_step.move [of _ _ _ "rec_cgroup rc"]) (simp_all add: gate_abs_def regs_def)
    ultimately show ?thesis by (simp add: gate_abs_def)
  qed
qed

lemma abs_delete:
  "spec_step (gate_abs (g, gs, p)) Tau (gate_abs (g\<lparr>approvals := AList.delete k (approvals g)\<rparr>, gs, p))"
  "spec_step (gate_abs (g, gs, p)) Tau (gate_abs (g\<lparr>approvals := AList.delete k (approvals g), activity := acts\<rparr>, gs, p))"
  by (rule abs_idle; simp add: regs_def fun_eq_iff keys_of_delete)+

lemma approvals_abs:
  shows "revoke_tool_approval_contract sha256 g kid tool res con = (b, g') \<Longrightarrow>
      spec_step (gate_abs (g, gs, p)) Tau (gate_abs (g', gs, p))"
    and "revoke_peripheral_call_contract sha256 g kid tool res con i = (bn, g'') \<Longrightarrow>
      spec_step (gate_abs (g, gs, p)) Tau (gate_abs (g'', gs, p))"
  by (auto simp: revoke_tool_approval_contract_def revoke_peripheral_call_contract_def Let_def
      intro: abs_delete abs_core split: option.splits)

lemma grant_abs:
  assumes "grant_tool_approval_contract sha256 g kid tool res con pol = (True, g')" and rc: "map_of (records g) kid = Some rc"
  shows "spec_step (gate_abs (g, gs, p)) (Grant (approval_key sha256 kid (registration_revision rc) tool res con))
    (gate_abs (g', gs, p))"
proof -
  let ?k = "approval_key sha256 kid (registration_revision rc) tool res con"
  have "g' = g\<lparr>approvals := AList.update ?k pol (approvals g)\<rparr>"
    using assms by (simp add: grant_tool_approval_contract_def split: if_splits)
  then have "gate_abs (g', gs, p) = (gate_abs (g, gs, p))\<lparr>a_grants := insert ?k (keys_of (approvals g))\<rparr>"
    by (simp add: gate_abs_def regs_def fun_eq_iff keys_of_update)
  moreover have "spec_step (gate_abs (g, gs, p)) (Grant ?k) ((gate_abs (g, gs, p))\<lparr>a_grants := insert ?k (a_grants (gate_abs (g, gs, p)))\<rparr>)"
    unfolding approval_key_def using rc by (intro spec_step.grant) (simp add: gate_abs_def regs_def)
  ultimately show ?thesis by (simp add: gate_abs_def)
qed

lemma consume_cases:
  assumes "\<not> unconfined g" and "consume_stage g kid po io fresh = ((sat, l), g')"
  shows "if sat then \<exists>key pol acts. po = Some (key, pol) \<and> approved g key pol \<and>
      g' = g\<lparr>approvals := AList.delete key (approvals g), activity := acts\<rparr> else g' = g \<and> l = None"
proof (cases po)
  case (Some kp)
  obtain key pol where kp: "kp = (key, pol)" by (cases kp)
  obtain l1 acts where ln: "lease_new (activity g) kid (the io) fresh = (l1, acts)" by (cases "lease_new (activity g) kid (the io) fresh")
  have same: "\<exists>acts. g\<lparr>approvals := x\<rparr> = g\<lparr>approvals := x, activity := acts\<rparr>" for x
    by (rule exI [of _ "activity g"]) simp
  show ?thesis
  proof (cases "approved g key pol")
    case True
    with assms Some kp ln same [of "AList.delete key (approvals g)"] show ?thesis
      by (cases io) (auto simp: consume_stage_def)
  qed (use assms Some kp in \<open>auto simp: consume_stage_def\<close>)
qed (use assms in \<open>auto simp: consume_stage_def\<close>)

lemma spend_abs:
  assumes "\<not> unconfined g" and "consume_stage g kid (Some (key, pol)) io fresh = ((True, l), g')"
  shows "spec_step (gate_abs (g, gs, p)) (Spend key) (gate_abs (g', gs, p))"
proof -
  from consume_cases [OF assms] obtain acts where ap: "approved g key pol"
    and g': "g' = g\<lparr>approvals := AList.delete key (approvals g), activity := acts\<rparr>" by auto
  from ap have "key \<in> keys_of (approvals g)" by (force simp: approved_def dest: map_of_SomeD split: option.splits)
  moreover have "gate_abs (g', gs, p) = (gate_abs (g, gs, p))\<lparr>a_grants := keys_of (approvals g) - {key}\<rparr>"
    by (simp add: g' gate_abs_def regs_def fun_eq_iff keys_of_delete)
  ultimately show ?thesis using spec_step.spend [of key "gate_abs (g, gs, p)"] by (simp add: gate_abs_def)
qed

lemma no_spend_core:
  "\<not> unconfined g \<Longrightarrow> consume_stage g kid po io fresh = ((False, l), g') \<Longrightarrow> same_core g' g"
  using consume_cases [of g kid po io fresh False l g'] by simp

lemma same_core_cgroups: "same_core g' g \<Longrightarrow> same_core (g'\<lparr>cgroups := m\<rparr>) (g\<lparr>cgroups := m\<rparr>)"
  by (simp add: same_core_def)

lemma acquire_record_cases:
  assumes "acquire_tool_call_for_record g i a acc = (r, g')"
  shows "(same_core g' g \<and> (\<exists>d. r = Inl (Err d))) \<or>
    (acc \<and> (\<exists>m ro. acquire_tool_call_for_agent (cgroups g) i a = (ro, m) \<and> same_core g' (g\<lparr>cgroups := m\<rparr>) \<and>
      (case r of Inr gd \<Rightarrow> ro = Inr gd | Inl d \<Rightarrow> (\<exists>e. ro = Inl e))))"
  using assms by (auto simp: acquire_tool_call_for_record_def split: if_splits prod.splits sum.splits)

lemma if_unchanged_cases:
  assumes "acquire_tool_call_if_unchanged g kid tool snap = (r, g')"
  shows "(same_core g' g \<and> (\<exists>d. r = Inl (Err d))) \<or>
    (authorization_snapshot_locked g kid tool = Inr snap \<and> snap_accepting (snap_agent snap) \<and>
     (\<exists>m ro. acquire_tool_call_for_agent (cgroups g) (snap_cgroup (snap_agent snap)) (snap_pid (snap_agent snap)) = (ro, m) \<and>
      same_core g' (g\<lparr>cgroups := m\<rparr>) \<and> (case r of Inr gd \<Rightarrow> ro = Inr gd | Inl d \<Rightarrow> (\<exists>e. ro = Inl e))))"
proof (cases "authorization_snapshot_locked g kid tool = Inr snap")
  case True
  with assms have "acquire_tool_call_for_record g (snap_cgroup (snap_agent snap)) (snap_pid (snap_agent snap))
      (snap_accepting (snap_agent snap)) = (r, g')" by (simp add: acquire_tool_call_if_unchanged_def)
  from acquire_record_cases [OF this] True show ?thesis by simp
next
  case False
  with assms show ?thesis by (auto simp: acquire_tool_call_if_unchanged_def split: sum.splits if_splits)
qed

lemma slot_cases:
  assumes conf: "\<not> unconfined g" and r: "slot_stage g kid tool so = (r, g')"
  shows "(same_core g' g \<and> isl r) \<or>
    (\<exists>snap m ro. so = Some snap \<and> authorization_snapshot_locked g kid tool = Inr snap \<and> snap_accepting (snap_agent snap) \<and>
      acquire_tool_call_for_agent (cgroups g) (snap_cgroup (snap_agent snap)) (snap_pid (snap_agent snap)) = (ro, m) \<and>
      same_core g' (g\<lparr>cgroups := m\<rparr>) \<and> (case r of Inr gd \<Rightarrow> ro = Inr gd | Inl d \<Rightarrow> (\<exists>e. ro = Inl e)))"
proof (cases so)
  case None
  with assms show ?thesis by (auto simp: slot_stage_def)
next
  case (Some snap)
  obtain r1 g1 where a: "acquire_tool_call_if_unchanged g kid tool snap = (r1, g1)" by (cases "acquire_tool_call_if_unchanged g kid tool snap")
  have "r = r1 \<and> (g' = g1 \<or> (\<exists>d. g' = record_agent_denial g1 kid d))"
    using r conf a Some by (auto simp: slot_stage_def split: sum.splits failure.splits)
  then have core: "same_core g' h = same_core g1 h" and "r = r1" for h by auto
  with if_unchanged_cases [OF a] Some show ?thesis unfolding core by auto
qed

lemma conclude_core:
  "conclude_stage sha256 g kid c call gd sat l req = (Inr out, g') \<Longrightarrow> same_core g' g"
  "conclude_stage sha256 g kid c call gd sat l req = (Inl d, g'') \<Longrightarrow>
    same_core g'' (g\<lparr>cgroups := release_tool_call (cgroups g) gd\<rparr>)"
  by (auto simp: conclude_stage_def refuse_approval_def drop_guard_def Let_def same_core_def tally_def record_agent_allowed_def
      record_agent_denial_def emit_audit_def split: if_splits)

lemma slot_abs:
  assumes conf: "\<not> unconfined g" and len: "length gs < 2 ^ 32 - 1" and r: "slot_stage g kid tool so = (r, g')"
  shows "spec_step (gate_abs (g, gs, p)) Tau (gate_abs (g', case r of Inr gd \<Rightarrow> gd # gs | Inl _ \<Rightarrow> gs, p))"
  using slot_cases [OF conf r]
proof (elim disjE exE conjE)
  fix snap m ro
  assume acq: "acquire_tool_call_for_agent (cgroups g) (snap_cgroup (snap_agent snap)) (snap_pid (snap_agent snap)) = (ro, m)"
    and core: "same_core g' (g\<lparr>cgroups := m\<rparr>)" and ro: "case r of Inr gd \<Rightarrow> ro = Inr gd | Inl d \<Rightarrow> (\<exists>e. ro = Inl e)"
  from mem_acquire(2) [OF acq] have m: "mem m = mem (cgroups g)" .
  show ?thesis
  proof (cases r)
    case (Inl d)
    with ro acq len have "cstep (cgroups g, gs) (m, gs)" by (auto intro: cstep.reserve_fails)
    with Inl abs_calls [OF core _ m] show ?thesis by simp
  next
    case (Inr gd)
    with ro acq len have "cstep (cgroups g, gs) (m, gd # gs)" by (auto intro: cstep.reserve)
    with Inr abs_calls [OF core _ m] show ?thesis by simp
  qed
qed (cases r; simp add: abs_core)

text \<open>Every section of the gate is a step of the abstract gate.\<close>

lemma gate_simulation:
  assumes "gstep sha256 (g, gs, p) l (g', gs', p')" and conf: "\<not> unconfined g" and ok: "calls_ok (cgroups g, gs)"
  shows "spec_step (gate_abs (g, gs, p)) l (gate_abs (g', gs', p'))"
  using assms(1)
proof cases
  case (slot kid tool snapo gd)
  then show ?thesis using slot_abs [OF conf, of gs kid tool snapo "Inr gd" g' p] by simp
next
  case (slot_fails kid tool snapo d)
  then show ?thesis using slot_abs [OF conf, of gs kid tool snapo "Inl d" g' p] by simp
next
  case (conclude_fails kid c call gd sat l req d xs ys)
  then show ?thesis using abs_calls [OF conclude_core(2) cstep.drop mem_release] by simp
next
  case (drop xs gd ys)
  then show ?thesis using abs_calls [OF _ cstep.drop mem_release, where g' = "drop_guard g gd" and g = g] by (simp add: drop_guard_def)
next
  case (mac_begin e)
  then show ?thesis using spec_step.lock [of "gate_abs (g, gs, None)" e]
    by (simp add: gate_abs_def bump_mac_revision_def room_def unat_Suc_bounded regs_def [abs_def])
next
  case (mac_commit e)
  then show ?thesis using spec_step.unlock [of "gate_abs (g, gs, Some e)" e] by (simp add: gate_abs_def regs_def [abs_def])
next
  case (group_create name parent scope lim i m)
  then have "cstep (cgroups g, gs) (m, gs)" by (blast intro: cstep.create)
  moreover from group_create ok have "mem m = mem (cgroups g)" by (blast intro: mem_create dest: calls_parts [THEN iffD1])
  ultimately show ?thesis using group_create abs_calls [where g' = g' and g = g and m = m] by simp
next
  case (group_remove j m)
  then show ?thesis using abs_calls [OF _ cstep.leaf [OF group_remove(5)] mem_leaf [OF group_remove(5)], of g'] by simp
next
  case (group_limits j lim m)
  then show ?thesis using abs_calls [OF _ cstep.limits [OF group_limits(5)] mem_limits [OF group_limits(5)], of g'] by simp
next
  case (force_unregister kid r)
  then show ?thesis using force_unregister_abs ok by (auto simp: calls_parts)
next
  case (spend kid key pol io fresh l)
  then show ?thesis using spend_abs [OF conf] by simp
next
  case (no_spend kid po io fresh l)
  then show ?thesis using no_spend_core [OF conf] abs_core by blast
qed (auto intro: register_abs try_unregister_abs set_cgroup_abs namespaces_abs approvals_abs grant_abs abs_core stage_cores
    conclude_core(1) simp: register_tool_namespace_def unregister_tool_namespace_def cancel_peripheral_for_agent_def abs_hidden)

section \<open>Invariants of the abstract gate\<close>

text \<open>
  Every process id in a group has been allocated; a registration names the one group its process
  is in; processes are not shared; every unspent approval belongs to a current registration.
\<close>

definition spec_ok :: "gspec \<Rightarrow> bool" where
  "spec_ok a \<longleftrightarrow> calls_reachable (a_calls a) \<and>
     (\<forall>i b. b \<in> set (mem (fst (a_calls a)) i) \<longrightarrow> unat b < unat (a_next_pid a)) \<and>
     (\<forall>kid p cg rv. a_regs a kid = Some (p, cg, rv) \<longrightarrow> p \<in> set (mem (fst (a_calls a)) cg) \<and> rv < a_next_auth a) \<and>
     (\<forall>kid kid' p cg rv cg' rv'. a_regs a kid = Some (p, cg, rv) \<longrightarrow> a_regs a kid' = Some (p, cg', rv') \<longrightarrow> kid = kid') \<and>
     (\<forall>k\<in>a_grants a. \<exists>p cg. a_regs a (fst k) = Some (p, cg, unat (fst (snd k))))"

lemma spec_okI:
  assumes "calls_reachable (a_calls a)"
    and "\<And>i b. b \<in> set (mem (fst (a_calls a)) i) \<Longrightarrow> unat b < unat (a_next_pid a)"
    and "\<And>kid p cg rv. a_regs a kid = Some (p, cg, rv) \<Longrightarrow> p \<in> set (mem (fst (a_calls a)) cg) \<and> rv < a_next_auth a"
    and "\<And>kid kid' p cg rv cg' rv'. a_regs a kid = Some (p, cg, rv) \<Longrightarrow> a_regs a kid' = Some (p, cg', rv') \<Longrightarrow> kid = kid'"
    and "\<And>k. k \<in> a_grants a \<Longrightarrow> \<exists>p cg. a_regs a (fst k) = Some (p, cg, unat (fst (snd k)))"
  shows "spec_ok a"
  unfolding spec_ok_def using assms by blast

lemma spec_okD:
  assumes "spec_ok a"
  shows "calls_reachable (a_calls a)"
    and "\<And>i b. b \<in> set (mem (fst (a_calls a)) i) \<Longrightarrow> unat b < unat (a_next_pid a)"
    and "\<And>kid p cg rv. a_regs a kid = Some (p, cg, rv) \<Longrightarrow> p \<in> set (mem (fst (a_calls a)) cg)"
    and "\<And>kid p cg rv. a_regs a kid = Some (p, cg, rv) \<Longrightarrow> rv < a_next_auth a"
    and "\<And>kid kid' p cg rv cg' rv'. a_regs a kid = Some (p, cg, rv) \<Longrightarrow> a_regs a kid' = Some (p, cg', rv') \<Longrightarrow> kid = kid'"
    and "\<And>k. k \<in> a_grants a \<Longrightarrow> \<exists>p cg. a_regs a (fst k) = Some (p, cg, unat (fst (snd k)))"
  using assms unfolding spec_ok_def by blast+

lemma register_spec_ok:
  assumes ok: "spec_ok a" and new: "a_regs a kid = None" and room: "unat (a_next_pid a) < 2 ^ 64 - 1"
    and c: "a_calls a = (m, gs)" and add: "add_agent m cg (a_next_pid a) = Inr m'"
  shows "spec_ok (a\<lparr>a_calls := (m', gs), a_regs := (a_regs a)(kid \<mapsto> (a_next_pid a, cg, a_next_auth a)),
      a_next_pid := a_next_pid a + 1, a_next_auth := Suc (a_next_auth a)\<rparr>)"
proof -
  note D = spec_okD [OF ok, unfolded c, simplified]
  have fresh: "a_next_pid a \<notin> set (mem m i)" for i using D(2) by blast
  have old: "a_regs a k \<noteq> Some (a_next_pid a, x)" for k x using D(3) fresh by (cases x) blast
  have "a_next_pid a \<notin> set (cg_members g)" if "grp m j = Some g" for j g using fresh [of j] that by (simp add: mem_def)
  then have "cstep (m, gs) (m', gs)" using add by (rule cstep.add)
  then have "calls_reachable (m', gs)" using D(1) by (blast intro: calls_reachable.step)
  moreover have "unat b < unat (a_next_pid a + 1)" if "b \<in> set (mem m' i)" for b i
    using that D(2) [of b i] room unfolding mem_add [OF add] by (auto simp: unat_Suc_bounded split: if_splits)
  moreover have "p \<in> set (mem m' cg')" if "a_regs a k = Some (p, cg', rv)" for k p cg' rv
    using D(3) [OF that] unfolding mem_add [OF add] by auto
  moreover have "a_next_pid a \<in> set (mem m' cg)" unfolding mem_add [OF add] by simp
  moreover have "rv < Suc (a_next_auth a)" if "a_regs a k = Some (p, cg', rv)" for k p cg' rv using D(4) [OF that] by simp
  moreover have "fst k \<noteq> kid" if "k \<in> a_grants a" for k using D(6) [OF that] new by auto
  ultimately show ?thesis using old D(5,6) by (intro spec_okI) (auto split: if_splits)
qed

text \<open>The same conditions on the fields a transition of registrations replaces.\<close>

lemma spec_ok_fields:
  assumes "calls_reachable (m, gs)"
    and "\<And>i b. b \<in> set (mem m i) \<Longrightarrow> unat b < unat (a_next_pid a)"
    and "\<And>kid p cg rv. R kid = Some (p, cg, rv) \<Longrightarrow> p \<in> set (mem m cg) \<and> rv < a_next_auth a"
    and "\<And>kid kid' p cg rv cg' rv'. R kid = Some (p, cg, rv) \<Longrightarrow> R kid' = Some (p, cg', rv') \<Longrightarrow> kid = kid'"
    and "\<And>k. k \<in> A \<Longrightarrow> \<exists>p cg. R (fst k) = Some (p, cg, unat (fst (snd k)))"
  shows "spec_ok (a\<lparr>a_calls := (m, gs), a_regs := R, a_grants := A\<rparr>)"
proof -
  let ?b = "a\<lparr>a_calls := (m, gs), a_regs := R, a_grants := A\<rparr>"
  have sel: "a_calls ?b = (m, gs)" "a_regs ?b = R" "a_grants ?b = A" "a_next_pid ?b = a_next_pid a"
    "a_next_auth ?b = a_next_auth a" by simp_all
  show ?thesis unfolding spec_ok_def sel fst_conv using assms by blast
qed

lemma unregister_spec_ok:
  assumes ok: "spec_ok a" and reg: "a_regs a kid = Some (p, cg, rv)" and c: "a_calls a = (m, gs)"
    and rm: "try_remove_agent m cg p = Inr m' \<or> force_remove_agent m cg p = (Inr (), m')"
  shows "spec_ok (a\<lparr>a_calls := (m', gs), a_regs := (a_regs a)(kid := None), a_grants := {k \<in> a_grants a. fst k \<noteq> kid}\<rparr>)"
proof (rule spec_ok_fields)
  note D = spec_okD [OF ok, unfolded c, simplified]
  from calls_reachable_ok [OF D(1)] have cok: "tree_ok m" "members_ok m" by (simp_all add: calls_parts)
  have mem': "set (mem m' j) = (if j = cg then set (mem m cg) - {p} else set (mem m j))" for j
    using rm
  proof
    assume "force_remove_agent m cg p = (Inr (), m')"
    from mem_force [OF cok this] show ?thesis by simp
  qed (rule mem_remove(1) [OF cok(2)])
  have "cstep (m, gs) (m', gs)" using rm by (blast intro: cstep.remove cstep.force)
  then show "calls_reachable (m', gs)" using D(1) by (blast intro: calls_reachable.step)
  show "unat b < unat (a_next_pid a)" if "b \<in> set (mem m' i)" for b i
    using that D(2) [of b i] unfolding mem' by (auto split: if_splits)
  fix k q cg' r assume k: "((a_regs a)(kid := None)) k = Some (q, cg', r)"
  then have old: "a_regs a k = Some (q, cg', r)" and "k \<noteq> kid" by (auto split: if_splits)
  then have "q \<noteq> p" using D(5) reg by blast
  then show "q \<in> set (mem m' cg') \<and> r < a_next_auth a" using D(3,4) [OF old] unfolding mem' by auto
  show "k = k'" if "((a_regs a)(kid := None)) k' = Some (q, cg'', r')" for k' cg'' r'
    using D(5) [OF old, of k' cg'' r'] that by (simp split: if_splits)
next
  fix k assume "k \<in> {k \<in> a_grants a. fst k \<noteq> kid}"
  then show "\<exists>q d. ((a_regs a)(kid := None)) (fst k) = Some (q, d, unat (fst (snd k)))"
    using spec_okD(6) [OF ok, of k] by simp
qed

lemma move_spec_ok:
  assumes ok: "spec_ok a" and reg: "a_regs a kid = Some (p, cg, rv)" and c: "a_calls a = (m, gs)"
    and mv: "try_move_agent m cg cg' p = Inr m'"
  shows "spec_ok (a\<lparr>a_calls := (m', gs), a_regs := (a_regs a)(kid \<mapsto> (p, cg', rv)), a_grants := a_grants a\<rparr>)"
proof (rule spec_ok_fields)
  note D = spec_okD [OF ok, unfolded c, simplified]
  note cok = calls_reachable_ok [OF D(1)]
  let ?R = "(a_regs a)(kid \<mapsto> (p, cg', rv))"
  have mine: "p \<in> set (mem m' k) \<longleftrightarrow> k = cg'" for k by (rule move_members [OF cok mv])
  have others: "b \<noteq> p \<Longrightarrow> b \<in> set (mem m' k) \<longleftrightarrow> b \<in> set (mem m k)" for b k by (rule mem_move [OF cok mv])
  show "calls_reachable (m', gs)" using D(1) mv by (blast intro: calls_reachable.step cstep.move)
  show "unat b < unat (a_next_pid a)" if "b \<in> set (mem m' i)" for b i
    using that D(2) D(3) [OF reg] others by (cases "b = p") blast+
  have ne: "q \<noteq> p" if "a_regs a k = Some (q, x)" "k \<noteq> kid" for k q x
    using D(5) [OF _ reg] that by (cases x) blast
  show "q \<in> set (mem m' d) \<and> r < a_next_auth a" if "?R k = Some (q, d, r)" for k q d r
    using that D(3,4) [of k q d r] D(4) [OF reg] ne [of k q "(d, r)"] mine others by (simp split: if_splits)
  show "k = k'" if "?R k = Some (q, d, r)" "?R k' = Some (q, d', r')" for k k' q d r d' r'
    using that ne [of k q "(d, r)"] ne [of k' q "(d', r')"] D(5) [of k q d r k' d' r'] by (simp split: if_splits)
  show "\<exists>q d. ?R (fst k) = Some (q, d, unat (fst (snd k)))" if "k \<in> a_grants a" for k
    using D(6) [OF that] reg by auto
qed

lemma spec_step_ok:
  assumes "spec_step a l b" and ok: "spec_ok a"
  shows "spec_ok b"
  using assms(1)
proof cases
  case (calls c)
  obtain m gs where ac: "a_calls a = (m, gs)" by (cases "a_calls a")
  note D = spec_okD [OF ok]
  have "calls_reachable c" using D(1) calls(3) by (blast intro: calls_reachable.step)
  then show ?thesis using D calls by (intro spec_okI) auto
next
  case (idle A n)
  have "rv < n" if "a_regs a kid = Some (p, cg, rv)" for kid p cg rv
    using spec_okD(4) [OF ok that] idle by simp
  then show ?thesis using spec_okD(1-3,5,6) [OF ok] idle by (intro spec_okI) auto
next
  case lost_pid
  note D = spec_okD [OF ok]
  have "unat x < unat (a_next_pid a + 1)" if "x \<in> set (mem (fst (a_calls a)) i)" for x i
    using D(2) [OF that] lost_pid(3) by (simp add: unat_Suc_bounded)
  then show ?thesis using D lost_pid by (intro spec_okI) auto
next
  case register
  then show ?thesis using register_spec_ok [OF ok] by simp
next
  case unregister
  then show ?thesis using unregister_spec_ok [OF ok] by simp
next
  case move
  then show ?thesis using move_spec_ok [OF ok] by simp
next
  case (grant kid p cg rv t)
  then show ?thesis using spec_okD [OF ok] by (intro spec_okI) auto
qed (use spec_okD [OF ok] in \<open>intro spec_okI; auto\<close>)+

section \<open>Runs\<close>

lemma unconfined_frames [simp]:
  "unconfined (tally f g) = unconfined g" "unconfined (record_agent_denial g kid d) = unconfined g"
  "unconfined (revise kid h g) = unconfined g" "unconfined (forget_agent g kid) = unconfined g"
  "unconfined (bump_mac_revision g) = unconfined g" "unconfined (drop_guard g gd) = unconfined g"
  by (simp_all add: tally_def record_agent_denial_def revise_def forget_agent_def cancel_peripheral_for_agent_def
      bump_mac_revision_def drop_guard_def Let_def)

lemma registration_unconfined:
  "try_register_agent_with_admission g kid caps cg managed acc = (r, g') \<Longrightarrow> unconfined g' = unconfined g"
  "try_unregister_agent g kid = (r2, g') \<Longrightarrow> unconfined g' = unconfined g"
  "force_unregister_agent g kid = (r2, g') \<Longrightarrow> unconfined g' = unconfined g"
  "try_set_cgroup g kid cg' = (r3, g') \<Longrightarrow> unconfined g' = unconfined g"
  "close_tool_admission g kid = (r4, g') \<Longrightarrow> unconfined g' = unconfined g"
  "reopen_tool_admission g kid = (r2, g') \<Longrightarrow> unconfined g' = unconfined g"
  by (auto simp: try_register_agent_with_admission_def try_unregister_agent_def force_unregister_agent_def try_set_cgroup_def
      close_tool_admission_def reopen_tool_admission_def Let_def split: option.splits sum.splits prod.splits failure.splits if_splits)

lemma approval_unconfined:
  "grant_tool_approval_contract sha256 g kid tool res con pol = (b, g') \<Longrightarrow> unconfined g' = unconfined g"
  "revoke_tool_approval_contract sha256 g kid tool res con = (bo, g') \<Longrightarrow> unconfined g' = unconfined g"
  "revoke_peripheral_call_contract sha256 g kid tool res con i = (bn, g') \<Longrightarrow> unconfined g' = unconfined g"
  "cancel_peripheral_for_agent g kid = (n, g') \<Longrightarrow> unconfined g' = unconfined g"
  "consume_stage g kid po io fresh = (sl, g') \<Longrightarrow> unconfined g' = unconfined g"
  by (auto simp: grant_tool_approval_contract_def revoke_tool_approval_contract_def revoke_peripheral_call_contract_def
      cancel_peripheral_for_agent_def consume_stage_def Let_def split: option.splits prod.splits if_splits)

lemma same_core_unconfined: "same_core g' g \<Longrightarrow> unconfined g' = unconfined g"
  by (simp add: same_core_def)

lemma slot_unconfined:
  assumes "\<not> unconfined g" and "slot_stage g kid tool so = (r, g')"
  shows "unconfined g' = unconfined g"
  using slot_cases [OF assms] by (auto dest: same_core_unconfined)

lemma gstep_unconfined:
  assumes "gstep sha256 (g, gs, p) l (g', gs', p')" and "\<not> unconfined g"
  shows "\<not> unconfined g'"
  using assms(1)
proof cases
  case slot
  then show ?thesis using slot_unconfined assms(2) by blast
next
  case slot_fails
  then show ?thesis using slot_unconfined assms(2) by blast
next
  case conclude_fails
  then show ?thesis using conclude_core(2) assms(2) by (fastforce dest: same_core_unconfined)
qed (use assms(2) in \<open>auto dest: registration_unconfined approval_unconfined stage_cores [THEN same_core_unconfined]
    conclude_core(1) [THEN same_core_unconfined] simp: register_tool_namespace_def unregister_tool_namespace_def
    set_agent_namespaces_def add_agent_namespace_def set_capabilities_def set_audit_sink_def purge_agent_stats_def split: option.splits\<close>)

inductive spec_runs :: "gspec \<Rightarrow> label list \<Rightarrow> gspec \<Rightarrow> bool" where
  none: "spec_runs a [] a"
| more: "spec_runs a ls b \<Longrightarrow> spec_step b l c \<Longrightarrow> spec_runs a (ls @ [l]) c"

definition gate_inv :: "gsys \<Rightarrow> bool" where
  "gate_inv s \<longleftrightarrow> \<not> unconfined (fst s) \<and> spec_ok (gate_abs s)"

lemma gate_inv_calls: "gate_inv (g, gs, p) \<Longrightarrow> calls_reachable (cgroups g, gs)"
  using spec_okD(1) by (fastforce simp: gate_inv_def gate_abs_def)

lemma gstep_simulates:
  assumes "gstep sha256 s l t" and "gate_inv s"
  shows "spec_step (gate_abs s) l (gate_abs t)" and "gate_inv t"
proof -
  obtain g gs p g' gs' p' where s: "s = (g, gs, p)" and t: "t = (g', gs', p')" by (cases s, cases t)
  note ok = calls_reachable_ok [OF gate_inv_calls [OF assms(2) [unfolded s]]]
  from assms(2) have conf: "\<not> unconfined g" by (simp add: gate_inv_def s)
  show sim: "spec_step (gate_abs s) l (gate_abs t)" using gate_simulation [OF assms(1) [unfolded s t] conf ok] by (simp add: s t)
  show "gate_inv t" using spec_step_ok [OF sim] assms(2) gstep_unconfined [OF assms(1) [unfolded s t] conf]
    by (simp add: gate_inv_def t)
qed

lemma gruns_simulates:
  assumes "gruns sha256 s ls t" and "gate_inv s"
  shows "spec_runs (gate_abs s) ls (gate_abs t) \<and> gate_inv t"
  using assms by (induction rule: gruns.induct) (blast intro: spec_runs.intros gstep_simulates)+

lemma gate_start_inv: "unat first < 2 ^ 64 - 1 \<Longrightarrow> gate_inv (with_mac (manager_new first) enf rules, [], None)"
proof -
  assume "unat first < 2 ^ 64 - 1"
  then have "calls_reachable (manager_new first, [])" by (rule calls_reachable.start)
  moreover have "mem (manager_new first) i = []" for i by (simp add: mem_def manager_new_def)
  ultimately show ?thesis by (auto simp: gate_inv_def with_mac_def gate_abs_def regs_def intro!: spec_okI)
qed

lemma gate_reachable_inv: "gate_reachable sha256 ls s \<Longrightarrow> gate_inv s"
  unfolding gate_reachable_def using gruns_simulates gate_start_inv by blast

lemma gruns_append: "gruns sha256 t ls' u \<Longrightarrow> gruns sha256 s ls t \<Longrightarrow> gruns sha256 s (ls @ ls') u"
  by (induction rule: gruns.induct) (auto intro: gruns.more simp flip: append_assoc)

lemma gate_reachable_run: "gate_reachable sha256 ls s \<Longrightarrow> gruns sha256 s ls' t \<Longrightarrow> gate_reachable sha256 (ls @ ls') t"
  unfolding gate_reachable_def using gruns_append by blast

lemma gate_reachable_step: "gate_reachable sha256 ls s \<Longrightarrow> gstep sha256 s l t \<Longrightarrow> gate_reachable sha256 (ls @ [l]) t"
  unfolding gate_reachable_def by (blast intro: gruns.more)

section \<open>What runs of the abstract gate keep\<close>

lemma spec_step_engine:
  assumes "spec_step a l b"
  shows "a_revision a \<le> a_revision b"
    and "a_revision b = a_revision a \<Longrightarrow> a_lock a = None \<Longrightarrow> a_lock b = None \<and> a_engine b = a_engine a"
  using assms by (cases; simp)+

lemma spec_runs_engine:
  assumes "spec_runs a ls b"
  shows "a_revision a \<le> a_revision b \<and>
    (a_revision b = a_revision a \<longrightarrow> a_lock a = None \<longrightarrow> a_lock b = None \<and> a_engine b = a_engine a)"
  using assms
proof (induction rule: spec_runs.induct)
  case (more a ls b l c)
  from spec_step_engine(1) [OF more(2)] more.IH spec_step_engine(2) [OF more(2)] show ?case by auto
qed simp

lemma spec_runs_grants:
  assumes "spec_runs a ls b"
  shows "count_list ls (Spend k) + of_bool (k \<in> a_grants b) \<le> count_list ls (Grant k) + of_bool (k \<in> a_grants a)"
  using assms
proof (induction rule: spec_runs.induct)
  case (more a ls b l c)
  from more(2) have "of_bool (l = Spend k) + of_bool (k \<in> a_grants c) \<le> (of_bool (l = Grant k) + of_bool (k \<in> a_grants b) :: nat)"
    by cases auto
  with more.IH show ?case by (auto split: if_splits)
qed simp

section \<open>Properties\<close>

lemma begin_check_Inr:
  assumes "begin_check g kid c = (Inr snap, g')"
  shows "authorization_snapshot_locked g kid (tc_tool c) = Inr snap" and "snap_accepting (snap_agent snap)"
    and "tns_namespace (snap_tool_namespace snap) = Some ns \<Longrightarrow> ns \<in> set (snap_namespaces (snap_agent snap))"
    and "missing_capability (snap_caps (snap_agent snap)) (tc_capabilities c) = None" and "g' = g"
  using assms by (auto simp: begin_check_def refuse_def Let_def split: sum.splits GateDenial.splits option.splits if_splits)

lemma missing_capability_None: "missing_capability caps cs = None \<longleftrightarrow> (\<forall>c\<in>set cs. cap_has caps c)"
  by (induction caps cs rule: missing_capability.induct) auto

lemma mac_stage_Inr: "mac_stage sha256 g kid c cs snap = (Inr b, g') \<Longrightarrow>
    check (mac g) (snap_pid (snap_agent snap)) (tc_action c) (tc_resource c) \<noteq> Deny"
  by (auto simp: mac_stage_def Let_def)

lemma slot_stage_Inr:
  assumes "\<not> unconfined g" and "slot_stage g kid tool so = (Inr gd, g')"
  obtains snap m where "so = Some snap" "authorization_snapshot_locked g kid tool = Inr snap"
    "acquire_tool_call_for_agent (cgroups g) (snap_cgroup (snap_agent snap)) (snap_pid (snap_agent snap)) = (Inr gd, m)"
    "same_core g' (g\<lparr>cgroups := m\<rparr>)"
  using slot_cases [OF assms] by auto

lemma snapshot_record:
  assumes "authorization_snapshot_locked g kid tool = Inr snap"
  obtains r where "map_of (records g) kid = Some r" "snap_agent snap = \<lparr>snap_pid = rec_pid r, snap_caps = rec_caps r,
      snap_cgroup = rec_cgroup r, snap_cgroup_revision = cgroup_revision r, snap_accepting = accepting_tool_calls r,
      snap_namespaces = rec_namespaces r, snap_registration = registration_revision r,
      snap_authorization = authorization_revision r\<rparr>"
    "tns_namespace (snap_tool_namespace snap) = map_of (tool_namespaces g) tool" "snap_mac_revision snap = mac_revision g"
  using assms by (cases "map_of (records g) kid") (auto simp: authorization_snapshot_locked_def tool_namespace_state_def)

lemma engine_at_slot:
  assumes inv: "gate_inv (g1, gs1, p1)" and r1: "gruns sha256 (g1, gs1, p1) ls1 (g2, gs2, None)"
    and core: "same_core g3 g2" and r2: "gruns sha256 (g3, gs2, None) ls2 (g4, gs4, p4)"
    and rev4: "mac_revision g4 = mac_revision g1"
  shows "mac g4 = mac g2 \<and> p4 = None"
proof -
  from gruns_simulates [OF r1 inv] have s1: "spec_runs (gate_abs (g1, gs1, p1)) ls1 (gate_abs (g2, gs2, None))"
    and i2: "gate_inv (g2, gs2, None)" by auto
  have abs3: "gate_abs (g3, gs2, None) = gate_abs (g2, gs2, None)" using core
    by (simp add: gate_abs_def same_core_def regs_def fun_eq_iff)
  with i2 core have "gate_inv (g3, gs2, None)" by (simp add: gate_inv_def same_core_def)
  from gruns_simulates [OF r2 this] have s2: "spec_runs (gate_abs (g2, gs2, None)) ls2 (gate_abs (g4, gs4, p4))"
    by (simp add: abs3)
  from spec_runs_engine [OF s1] spec_runs_engine [OF s2] rev4 show ?thesis by (simp add: gate_abs_def)
qed

text \<open>C1: However a call's sections interleave with other calls, registrations, revocations and policy changes, a call
  that gets its slot is authorised in the state in which it gets it: the agent is registered and admitting, the tool is in
  one of its namespaces, it holds every capability, the engine then in force (which no mutator is changing) does not deny the
  access, and the slot is charged to the agent's own process and group, with the group limits still kept.\<close>

theorem admission_authorized:
  assumes "gate_reachable sha256 ls (g1, gs1, p1)" and "begin_check g1 kid c = (Inr snap, g1')"
    and "gruns sha256 (g1', gs1, p1) ls1 (g2, gs2, None)" and "mac_stage sha256 g2 kid c False snap = (Inr aud, g3)"
    and "gruns sha256 (g3, gs2, None) ls2 (g4, gs4, p4)" and "length gs4 < 2 ^ 32 - 1"
    and "slot_stage g4 kid (tc_tool c) (Some snap) = (Inr gd, g5)"
  shows "\<exists>r. map_of (records g4) kid = Some r \<and> accepting_tool_calls r \<and>
    (\<forall>ns. map_of (tool_namespaces g4) (tc_tool c) = Some ns \<longrightarrow> ns \<in> set (rec_namespaces r)) \<and>
    (\<forall>cap\<in>set (tc_capabilities c). cap_has (rec_caps r) cap) \<and>
    check (mac g4) (rec_pid r) (tc_action c) (tc_resource c) \<noteq> Deny \<and> p4 = None \<and>
    rec_pid r \<in> set (mem (cgroups g4) (rec_cgroup r)) \<and>
    (\<exists>m. acquire_tool_call_for_agent (cgroups g4) (rec_cgroup r) (rec_pid r) = (Inr gd, m) \<and> cgroups g5 = m) \<and>
    calls_reachable (cgroups g5, gd # gs4)"
proof -
  note b = begin_check_Inr [OF assms(2)]
  from gate_reachable_inv [OF assms(1)] have i1: "gate_inv (g1, gs1, p1)" .
  have core: "same_core g3 g2" using assms(4) by (rule mac_stage_core)
  have i4: "gate_inv (g4, gs4, p4)"
    using gruns_simulates [OF assms(3)] i1 gstep_simulates(2) [OF gstep.check2 [OF assms(4)]] gruns_simulates [OF assms(5)] b(5) by simp
  then have "gate_inv (g5, gd # gs4, p4)" using gstep.slot assms(6,7) gstep_simulates(2) by blast
  then have calls: "calls_reachable (cgroups g5, gd # gs4)" by (rule gate_inv_calls)
  from i4 have conf: "\<not> unconfined g4" and ok4: "spec_ok (gate_abs (g4, gs4, p4))" by (simp_all add: gate_inv_def)
  from slot_stage_Inr [OF conf assms(7)] obtain m where s4: "authorization_snapshot_locked g4 kid (tc_tool c) = Inr snap"
    and acq: "acquire_tool_call_for_agent (cgroups g4) (snap_cgroup (snap_agent snap)) (snap_pid (snap_agent snap)) = (Inr gd, m)"
    and c5: "same_core g5 (g4\<lparr>cgroups := m\<rparr>)" by auto
  from snapshot_record [OF b(1)] have "snap_mac_revision snap = mac_revision g1" by metis
  moreover from snapshot_record [OF s4] have "snap_mac_revision snap = mac_revision g4" by metis
  ultimately have "mac_revision g4 = mac_revision g1" by simp
  from engine_at_slot [OF i1 assms(3) [unfolded b(5)] core assms(5) this] have eng: "mac g4 = mac g2" "p4 = None" by auto
  obtain r where r: "map_of (records g4) kid = Some r" and sa: "snap_agent snap = \<lparr>snap_pid = rec_pid r, snap_caps = rec_caps r,
      snap_cgroup = rec_cgroup r, snap_cgroup_revision = cgroup_revision r, snap_accepting = accepting_tool_calls r,
      snap_namespaces = rec_namespaces r, snap_registration = registration_revision r,
      snap_authorization = authorization_revision r\<rparr>"
    and tn: "tns_namespace (snap_tool_namespace snap) = map_of (tool_namespaces g4) (tc_tool c)" using snapshot_record [OF s4] by metis
  have "rec_pid r \<in> set (mem (cgroups g4) (rec_cgroup r))"
    using spec_okD(3) [OF ok4, of kid] r by (simp add: gate_abs_def regs_def)
  then show ?thesis using r b(2,3,4) sa tn mac_stage_Inr [OF assms(4)] eng acq c5 calls
    by (auto simp: missing_capability_None same_core_def)
qed


text \<open>C2: In every interleaving an approval is spent at most as often as the operator granted that exact call.\<close>

theorem approvals_single_use:
  assumes "gate_reachable sha256 ls s"
  shows "count_list ls (Spend k) \<le> count_list ls (Grant k)"
proof -
  from assms obtain first enf rules where "unat first < 2 ^ 64 - 1"
    and run: "gruns sha256 (with_mac (manager_new first) enf rules, [], None) ls s" by (auto simp: gate_reachable_def)
  from gruns_simulates [OF run gate_start_inv [OF this(1)]]
  have "spec_runs (gate_abs (with_mac (manager_new first) enf rules, [], None)) ls (gate_abs s)" by blast
  from spec_runs_grants [OF this, of k] show ?thesis by (simp add: gate_abs_def with_mac_def)
qed

text \<open>C7: Registrations and control groups agree in every reachable state: an agent's process is a member of exactly the
  group its record names, no two agents share a process, and every unspent approval belongs to the current registration of
  a registered agent, so none survives the agent's removal.\<close>

theorem registrations_match_groups:
  assumes "gate_reachable sha256 ls (g, gs, p)" and rec: "map_of (records g) kid = Some r"
  shows "(\<forall>i. rec_pid r \<in> set (mem (cgroups g) i) \<longleftrightarrow> i = rec_cgroup r) \<and>
    (\<forall>kid' r'. map_of (records g) kid' = Some r' \<longrightarrow> rec_pid r' = rec_pid r \<longrightarrow> kid' = kid) \<and>
    (\<forall>rv t. (kid, rv, t) \<in> keys_of (approvals g) \<longrightarrow> rv = registration_revision r) \<and>
    (\<forall>kid' rv t. (kid', rv, t) \<in> keys_of (approvals g) \<longrightarrow> map_of (records g) kid' \<noteq> None)"
proof -
  from gate_reachable_inv [OF assms(1)] have ok: "spec_ok (gate_abs (g, gs, p))" and inv: "gate_inv (g, gs, p)"
    by (simp_all add: gate_inv_def)
  note D = spec_okD [OF ok, unfolded gate_abs_def, simplified]
  have reg: "regs g k = Some (rec_pid x, rec_cgroup x, unat (registration_revision x))" if "map_of (records g) k = Some x" for k x
    using that by (simp add: regs_def)
  from calls_reachable_ok [OF gate_inv_calls [OF inv]] have "members_ok (cgroups g)" by (simp add: calls_parts)
  then have "rec_pid r \<in> set (mem (cgroups g) i) \<longleftrightarrow> i = rec_cgroup r" for i using D(3) [OF reg [OF rec]]
    unfolding members_ok_def by blast
  moreover have "kid' = kid" if "map_of (records g) kid' = Some r'" "rec_pid r' = rec_pid r" for kid' r'
    using D(5) [OF reg [OF that(1), unfolded that(2)] reg [OF rec]] .
  moreover have "rv = registration_revision r" if "(kid, rv, t) \<in> keys_of (approvals g)" for rv t
    using D(6) [OF that] reg [OF rec] by (auto simp: word_unat_eq_iff)
  moreover have "map_of (records g) kid' \<noteq> None" if "(kid', rv, t) \<in> keys_of (approvals g)" for kid' rv t
    using D(6) [OF that] by (auto simp: regs_def)
  ultimately show ?thesis by blast
qed


section \<open>One call, start to end\<close>

text \<open>What an uninterrupted call needs.\<close>

definition grounds :: "digest \<Rightarrow> SyscallGate \<Rightarrow> uuid \<Rightarrow> ToolCallContract \<Rightarrow> string \<Rightarrow> GateRecord \<Rightarrow> bool" where
  "grounds sha256 g kid c contract r \<longleftrightarrow> accepting_tool_calls r \<and>
     (case map_of (tool_namespaces g) (tc_tool c) of None \<Rightarrow> True | Some ns \<Rightarrow> ns \<in> set (rec_namespaces r)) \<and>
     (\<forall>cap\<in>set (tc_capabilities c). cap_has (rec_caps r) cap) \<and>
     check (mac g) (rec_pid r) (tc_action c) (tc_resource c) \<noteq> Deny \<and>
     (tc_approval c = NoApproval \<or>
       approved g (approval_key sha256 kid (registration_revision r) (tc_tool c) (tc_resource c) contract) (tc_approval c))"

definition snapshot_of :: "SyscallGate \<Rightarrow> string \<Rightarrow> GateRecord \<Rightarrow> ToolAuthorizationSnapshot" where
  "snapshot_of g tool r = \<lparr>snap_agent = \<lparr>snap_pid = rec_pid r, snap_caps = rec_caps r, snap_cgroup = rec_cgroup r,
      snap_cgroup_revision = cgroup_revision r, snap_accepting = accepting_tool_calls r,
      snap_namespaces = rec_namespaces r, snap_registration = registration_revision r,
      snap_authorization = authorization_revision r\<rparr>,
    snap_tool_namespace = tool_namespace_state g tool, snap_mac_revision = mac_revision g\<rparr>"

lemma snapshot_locked: "map_of (records g) kid = Some r \<Longrightarrow> authorization_snapshot_locked g kid tool = Inr (snapshot_of g tool r)"
  by (simp add: authorization_snapshot_locked_def snapshot_of_def)

lemmas snap_sel = snapshot_of_def tool_namespace_state_def

text \<open>A bucket for every verdict.\<close>

definition verdicts :: "SyscallGate \<Rightarrow> u64" where
  "verdicts g = (let s = gate_stats g in allowed s + denied_capability s + denied_mac s + denied_approval s +
     denied_cgroup s + denied_unknown s + denied_namespace s)"

lemma verdict_frames [simp]:
  "verdicts (record_agent_denial g kid d) = verdicts g" "verdicts (record_agent_allowed g kid b) = verdicts g"
  "verdicts (emit_audit g e) = verdicts g" "verdicts (g\<lparr>cgroups := m\<rparr>) = verdicts g" "verdicts (drop_guard g gd) = verdicts g"
  "verdicts (g\<lparr>approvals := ap\<rparr>) = verdicts g" "verdicts (g\<lparr>activity := ac\<rparr>) = verdicts g"
  "verdicts (tally (audited_update f) g) = verdicts g"
  by (simp_all add: verdicts_def Let_def record_agent_denial_def record_agent_allowed_def emit_audit_def drop_guard_def tally_def)

lemma verdict_tally [simp]:
  "verdicts (tally (allowed_update (\<lambda>n. n + 1)) g) = verdicts g + 1"
  "verdicts (tally (denied_capability_update (\<lambda>n. n + 1)) g) = verdicts g + 1"
  "verdicts (tally (denied_mac_update (\<lambda>n. n + 1)) g) = verdicts g + 1"
  "verdicts (tally (denied_approval_update (\<lambda>n. n + 1)) g) = verdicts g + 1"
  "verdicts (tally (denied_cgroup_update (\<lambda>n. n + 1)) g) = verdicts g + 1"
  "verdicts (tally (denied_unknown_update (\<lambda>n. n + 1)) g) = verdicts g + 1"
  "verdicts (tally (denied_namespace_update (\<lambda>n. n + 1)) g) = verdicts g + 1"
  by (simp_all add: verdicts_def tally_def Let_def)

lemma begin_check_Inl:
  assumes "begin_check g kid c = (Inl e, g')"
  shows "verdicts g' = verdicts g + 1" and "e \<noteq> Panic"
    and "map_of (records g) kid = Some r \<Longrightarrow> \<not> grounds sha256 g kid c contract r"
  using assms by (auto simp: begin_check_def refuse_def Let_def authorization_snapshot_locked_def ok_or_def snap_sel
      grounds_def missing_capability_None [symmetric] split: option.splits if_splits sum.splits)

lemma mac_stage_Inl:
  assumes "mac_stage sha256 g kid c cs (snapshot_of g tool r) = (Inl e, g')"
  shows "verdicts g' = verdicts g + 1" and "e \<noteq> Panic" and "\<not> grounds sha256 g kid c contract r"
  using assms by (auto simp: mac_stage_def Let_def snap_sel grounds_def split: MacDecision.splits)

lemma approval_stage_spec:
  assumes "approval_stage sha256 g kid c (snapshot_of g tool r) = (res, g')" and "tc_contract c = Some contract"
  shows "case res of
      Inl e \<Rightarrow> verdicts g' = verdicts g + 1 \<and> e \<noteq> Panic \<and> \<not> grounds sha256 g kid c contract r
    | Inr pend \<Rightarrow> g' = g \<and> (let k = approval_key sha256 kid (registration_revision r) (tc_tool c) (tc_resource c) contract in
        (tc_approval c = NoApproval \<or> approved g k (tc_approval c)) \<and>
        pend = (if tc_approval c = NoApproval then None else Some (k, tc_approval c)))"
  using assms by (auto simp: approval_stage_def refuse_approval_def Let_def snap_sel grounds_def split: if_splits)

lemma checked_call:
  assumes conf: "\<not> unconfined g" and "check_tool_call_contract sha256 g kid c False = (res, g')" and con: "tc_contract c = Some contract"
  shows "case res of
      Inr call \<Rightarrow> g' = g \<and> (\<exists>r. map_of (records g) kid = Some r \<and> grounds sha256 g kid c contract r \<and>
        auth_snapshot call = Some (snapshot_of g (tc_tool c) r) \<and> auth_pid call = rec_pid r \<and>
        auth_pending call = (if tc_approval c = NoApproval then None
          else Some (approval_key sha256 kid (registration_revision r) (tc_tool c) (tc_resource c) contract, tc_approval c)))
    | Inl e \<Rightarrow> same_core g' g \<and> verdicts g' = verdicts g + 1 \<and> e \<noteq> Panic \<and>
        (\<forall>r. map_of (records g) kid = Some r \<longrightarrow> \<not> grounds sha256 g kid c contract r)"
proof (cases "begin_check g kid c")
  case (Pair b g1)
  show ?thesis
  proof (cases b)
    case (Inl e)
    with assms(2) Pair conf begin_check_Inl [of g kid c e g1] begin_check_core [OF Pair] show ?thesis by (auto simp: check_tool_call_contract_def)
  next
    case (Inr snap)
    note B = begin_check_Inr [OF Pair [unfolded Inr]]
    obtain r where r: "map_of (records g) kid = Some r" using snapshot_record [OF B(1)] by blast
    then have snap: "snap = snapshot_of g (tc_tool c) r" using B(1) by (simp add: snapshot_locked)
    obtain u g2 where m: "mac_stage sha256 g kid c False snap = (u, g2)" by (cases "mac_stage sha256 g kid c False snap")
    have rest: "bind_st (u, g2) (\<lambda>was_audited g.
        bind_st (approval_stage sha256 g kid c snap) (\<lambda>pend g.
        bind_st (finish_check g kid False snap was_audited) (\<lambda>_ g.
          (Inr \<lparr>auth_pid = snap_pid (snap_agent snap), auth_audited = was_audited, auth_pending = pend,
                auth_snapshot = Some snap\<rparr>, g)))) = (res, g')"
      using assms(2) Pair Inr m conf B(5) by (simp add: check_tool_call_contract_def)
    show ?thesis
    proof (cases u)
      case (Inl e)
      with rest mac_stage_Inl [of sha256 g kid c False "tc_tool c" r e g2] mac_stage_core [OF m] m snap r show ?thesis by auto
    next
      case (Inr aud)
      with m have g2: "g2 = g" by (auto simp: mac_stage_def Let_def split: MacDecision.splits)
      obtain ap g3 where ap: "approval_stage sha256 g kid c snap = (ap, g3)" by (cases "approval_stage sha256 g kid c snap")
      note spec = approval_stage_spec [OF ap [unfolded snap] con]
      have "grounds sha256 g kid c contract r" if "ap = Inr x" for x
        using spec that B(2,3,4) mac_stage_Inr [OF m [unfolded Inr]]
        by (auto simp: grounds_def snap snap_sel missing_capability_None Let_def split: option.splits)
      with rest ap spec approval_stage_core [OF ap] Inr g2 r snap show ?thesis
        by (cases ap) (auto simp: finish_check_def Let_def snap_sel)
    qed
  qed
qed


lemma approvals_frames [simp]:
  "approvals (tally f g) = approvals g" "approvals (record_agent_denial g kid d) = approvals g"
  by (simp_all add: tally_def record_agent_denial_def)

lemma slot_now:
  assumes "\<not> unconfined g" and "map_of (records g) kid = Some r" and "accepting_tool_calls r"
    and "slot_stage g kid tool (Some (snapshot_of g tool r)) = (res, g')"
  shows "case res of
      Inr gd \<Rightarrow> \<exists>m. acquire_tool_call_for_agent (cgroups g) (rec_cgroup r) (rec_pid r) = (Inr gd, m) \<and> g' = g\<lparr>cgroups := m\<rparr>
    | Inl e \<Rightarrow> e \<noteq> Panic \<and> verdicts g' = verdicts g + 1 \<and> approvals g' = approvals g \<and>
        isl (fst (acquire_tool_call_for_agent (cgroups g) (rec_cgroup r) (rec_pid r)))"
  using assms by (auto simp: slot_stage_def acquire_tool_call_if_unchanged_def snapshot_locked acquire_tool_call_for_record_def
      snapshot_of_def split: prod.splits sum.splits failure.splits)

lemma consume_now:
  assumes "\<not> unconfined g" and "pend = (if pol = NoApproval then None else Some (k, pol))" and "pol = NoApproval \<or> approved g k pol"
    and "consume_stage g kid pend io fresh = ((sat, l), g')"
  shows "sat \<longleftrightarrow> pol \<noteq> NoApproval" and "verdicts g' = verdicts g" and "cgroups g' = cgroups g"
    and "approvals g' = (if pol = NoApproval then approvals g else AList.delete k (approvals g))"
  using assms by (auto simp: consume_stage_def Let_def split: option.splits if_splits prod.splits)

lemma conclude_now:
  assumes "auth_pending call = None \<or> sat" and "conclude_stage sha256 g kid c call gd sat l req = (res, g')"
  shows "verdicts g' = verdicts g + 1" and "approvals g' = approvals g" and "cgroups g' = cgroups g"
    and "\<exists>pf. res = Inr (auth_pid call, gd, pf) \<and> approval_satisfied pf = sat \<and> proof_agent pf = kid \<and> proof_request_identity pf = req"
  using assms conclude_core(1) [of sha256 g kid c call gd sat l req _ g']
  by (auto simp: conclude_stage_def Let_def same_core_def split: if_splits)

lemma admitted_tail:
  assumes conf: "\<not> unconfined g" and ser: "\<And>j. \<not> isl (to_vec j)"
    and pend: "auth_pending call = (if pol = NoApproval then None else Some (k, pol))" and ap: "pol = NoApproval \<or> approved g k pol"
    and run: "bind_st (if track_peripheral_activity adm
          then (case peripheral_activity_identity to_vec sha256 tool contract (request_identity_of adm) of
                   Inl e \<Rightarrow> (Inl e, drop_guard g gd) | Inr i \<Rightarrow> (Inr (Some i), g))
          else (Inr None, g)) (\<lambda>identity g.
        case consume_stage g kid (auth_pending call) identity fresh of ((sat, l), g) \<Rightarrow>
          conclude_stage sha256 g kid c call gd sat l (request_identity_of adm)) = (res, g')"
  shows "verdicts g' = verdicts g + 1" and "cgroups g' = cgroups g"
    and "approvals g' = (if pol = NoApproval then approvals g else AList.delete k (approvals g))"
    and "\<exists>pf. res = Inr (auth_pid call, gd, pf) \<and> approval_satisfied pf = (pol \<noteq> NoApproval) \<and> proof_agent pf = kid \<and>
      proof_request_identity pf = request_identity_of adm"
proof -
  have "peripheral_activity_identity to_vec sha256 tool contract (request_identity_of adm) \<noteq> Inl e" for e
    using ser by (auto simp: peripheral_activity_identity_def isl_def split: sum.splits)
  then obtain i where "peripheral_activity_identity to_vec sha256 tool contract (request_identity_of adm) = Inr i"
    by (metis sum.exhaust)
  then obtain io where "(if track_peripheral_activity adm
        then (case peripheral_activity_identity to_vec sha256 tool contract (request_identity_of adm) of
                 Inl e \<Rightarrow> (Inl e, drop_guard g gd) | Inr i \<Rightarrow> (Inr (Some i), g))
        else (Inr None, g)) = (Inr io, g)"
    by (cases "track_peripheral_activity adm") auto
  moreover obtain sat l g3 where cons: "consume_stage g kid (auth_pending call) io fresh = ((sat, l), g3)"
    by (metis prod.exhaust)
  ultimately have fin: "conclude_stage sha256 g3 kid c call gd sat l (request_identity_of adm) = (res, g')" using run by simp
  note C = consume_now [OF conf pend ap cons]
  have "auth_pending call = None \<or> sat" using C(1) pend by auto
  note F = conclude_now [OF this fin]
  show "verdicts g' = verdicts g + 1" "cgroups g' = cgroups g"
    "approvals g' = (if pol = NoApproval then approvals g else AList.delete k (approvals g))"
    "\<exists>pf. res = Inr (auth_pid call, gd, pf) \<and> approval_satisfied pf = (pol \<noteq> NoApproval) \<and> proof_agent pf = kid \<and>
      proof_request_identity pf = request_identity_of adm"
    using F C by simp_all
qed

text \<open>C4: A call that runs without interruption is decided by its grounds: it is admitted exactly when the agent is
  registered and admitting, sees the tool, holds the capabilities, is not denied by the engine, has the approval the contract
  asks for and gets a slot in its group. It then spends exactly that approval and no other. Either way exactly one verdict
  is counted, and no call panics. (The serializer of the activity identity does not fail on the object it is given.)\<close>

theorem authorize_decides:
  assumes conf: "\<not> unconfined g" and ser: "\<And>j. \<not> isl (to_vec j)" and c: "c = contract_of tool resource sec (Some contract)"
    and adm: "approval_contract adm = contract"
    and run: "authorize_and_acquire_tool_call_declared_contract to_vec sha256 g kid tool resource sec adm fresh = (res, g')"
  shows "verdicts g' = verdicts g + 1 \<and> (case res of
      Inr (p, gd, pf) \<Rightarrow> \<exists>r m. map_of (records g) kid = Some r \<and> grounds sha256 g kid c contract r \<and>
        acquire_tool_call_for_agent (cgroups g) (rec_cgroup r) (rec_pid r) = (Inr gd, m) \<and> cgroups g' = m \<and>
        p = rec_pid r \<and> proof_agent pf = kid \<and> proof_request_identity pf = request_identity_of adm \<and>
        approval_satisfied pf = (approval_policy sec \<noteq> NoApproval) \<and>
        approvals g' = (if approval_policy sec = NoApproval then approvals g
          else AList.delete (approval_key sha256 kid (registration_revision r) tool resource contract) (approvals g))
    | Inl e \<Rightarrow> e \<noteq> Panic \<and> approvals g' = approvals g \<and>
        (\<forall>r. map_of (records g) kid = Some r \<longrightarrow> grounds sha256 g kid c contract r \<longrightarrow>
          isl (fst (acquire_tool_call_for_agent (cgroups g) (rec_cgroup r) (rec_pid r)))))"
proof -
  obtain cr g1 where chk: "check_tool_call_contract sha256 g kid c False = (cr, g1)" by (cases "check_tool_call_contract sha256 g kid c False")
  have sel: "tc_tool c = tool" "tc_resource c = resource" "tc_approval c = approval_policy sec" "tc_contract c = Some contract"
    by (simp_all add: c contract_of_def)
  note spec = checked_call [OF conf chk sel(4), unfolded sel]
  note run = run [unfolded authorize_and_acquire_tool_call_declared_contract_def adm Let_def, folded c, unfolded chk]
  show ?thesis
  proof (cases cr)
    case (Inl e)
    with run spec show ?thesis by (auto simp: same_core_def)
  next
    case (Inr call)
    from spec Inr obtain r where g1: "g1 = g" and r: "map_of (records g) kid = Some r" and gr: "grounds sha256 g kid c contract r"
      and call: "auth_snapshot call = Some (snapshot_of g tool r)" "auth_pid call = rec_pid r"
      and pend: "auth_pending call = (if approval_policy sec = NoApproval then None
          else Some (approval_key sha256 kid (registration_revision r) tool resource contract, approval_policy sec))" by auto
    let ?k = "approval_key sha256 kid (registration_revision r) tool resource contract"
    obtain sr g2 where slot: "slot_stage g kid tool (Some (snapshot_of g tool r)) = (sr, g2)"
      by (cases "slot_stage g kid tool (Some (snapshot_of g tool r))")
    from gr have acc: "accepting_tool_calls r" and ap: "approval_policy sec = NoApproval \<or> approved g ?k (approval_policy sec)"
      by (auto simp: grounds_def sel)
    note slot' = slot_now [OF conf r acc slot]
    show ?thesis
    proof (cases sr)
      case (Inl e)
      with run Inr g1 call slot slot' r show ?thesis by auto
    next
      case gd: (Inr gd)
      with slot' obtain m where m: "acquire_tool_call_for_agent (cgroups g) (rec_cgroup r) (rec_pid r) = (Inr gd, m)"
        and g2: "g2 = g\<lparr>cgroups := m\<rparr>" by auto
      have conf2: "\<not> unconfined g2" and ap2: "approval_policy sec = NoApproval \<or> approved g2 ?k (approval_policy sec)"
        using conf ap by (auto simp: g2 approved_def)
      from run Inr g1 call slot gd have "bind_st (if track_peripheral_activity adm
          then (case peripheral_activity_identity to_vec sha256 tool contract (request_identity_of adm) of
                   Inl e \<Rightarrow> (Inl e, drop_guard g2 gd) | Inr i \<Rightarrow> (Inr (Some i), g2))
          else (Inr None, g2)) (\<lambda>identity g.
        case consume_stage g kid (auth_pending call) identity fresh of ((sat, l), g) \<Rightarrow>
          conclude_stage sha256 g kid c call gd sat l (request_identity_of adm)) = (res, g')" by simp
      note T = admitted_tail [OF conf2 ser pend ap2 this]
      from T m r gr call show ?thesis by (auto simp: g2)
    qed
  qed
qed


text \<open>C6: The gate with its tables, revisions and locks refines the abstract gate: every run is a run of the abstract gate
  with the same approvals granted and spent.\<close>

theorem gate_refines_spec:
  assumes "gate_reachable sha256 ls s"
  shows "\<exists>first enf rules. spec_runs (gate_abs (with_mac (manager_new first) enf rules, [], None)) ls (gate_abs s) \<and> spec_ok (gate_abs s)"
proof -
  from assms obtain first enf rules where f: "unat first < 2 ^ 64 - 1"
    and run: "gruns sha256 (with_mac (manager_new first) enf rules, [], None) ls s" by (auto simp: gate_reachable_def)
  from gruns_simulates [OF run gate_start_inv [OF f]] show ?thesis by (auto simp: gate_inv_def)
qed

text \<open>C40: A call whose authorisation went stale before its slot is refused and entered among the agent's own denials, but
  no counter of the gate itself moves: its verdict is in none of the buckets.\<close>

theorem stale_admission_uncounted:
  assumes "\<not> unconfined g" and "map_of (records g) kid = Some r" and "snap \<noteq> snapshot_of g tool r"
    and "map_of (agent_stats g) kid = Some st" and "slot_stage g kid tool (Some snap) = (res, g')"
  shows "res = Inl (Err AuthorizationStateChanged) \<and> gate_stats g' = gate_stats g \<and>
    map_of (agent_stats g') kid = Some (st\<lparr>denied_unknown := sat_add (denied_unknown st) 1\<rparr>)"
  using assms by (auto simp: slot_stage_def acquire_tool_call_if_unchanged_def snapshot_locked record_agent_denial_def map_of_map_entry)

section \<open>A concrete gate\<close>

definition demo_sha :: digest where
  "demo_sha _ = []"

definition demo_start :: SyscallGate where
  "demo_start = with_mac (manager_new 1) False []"

definition demo_gate :: SyscallGate where
  "demo_gate = snd (try_register_agent_with_admission demo_start 9 cap_all None False True)"

definition demo_record :: GateRecord where
  "demo_record = \<lparr>rec_pid = 1, rec_caps = cap_all, rec_cgroup = 1, managed_cgroup = False, cgroup_revision = 1,
     cgroup_changes = 1, registration_revision = 1, accepting_tool_calls = True, rec_namespaces = [],
     authorization_revision = 1, namespace_revision = 1\<rparr>"

definition demo_security :: ToolSecurity where
  "demo_security = (security_argument Read ''path'')\<lparr>approval_policy := User\<rparr>"

definition demo_contract :: ToolCallContract where
  "demo_contract = contract_of ''t'' ''r'' demo_security (Some ''k'')"

definition demo_key :: ApprovalKey where
  "demo_key = approval_key demo_sha 9 1 ''t'' ''r'' ''k''"

definition demo_approved :: SyscallGate where
  "demo_approved = demo_gate\<lparr>approvals := [(demo_key, User)]\<rparr>"

definition demo_slot :: ToolCallGuard where
  "demo_slot = \<lparr>guard_cgroups = [1], agent_reservation = Some (1, 0)\<rparr>"

definition demo_snapshot :: ToolAuthorizationSnapshot where
  "demo_snapshot = snapshot_of demo_approved ''t'' demo_record"

definition demo_admission :: GateAdmissionContract where
  "demo_admission = \<lparr>approval_contract = ''k'', request_identity_of = ''q'', track_peripheral_activity = False\<rparr>"

lemmas gate_demo_defs = demo_gate_def demo_start_def with_mac_def try_register_agent_with_admission_def demo_record_def
  demo_approved_def demo_key_def demo_contract_def demo_security_def contract_of_def security_argument_def security_new_def

lemma demo_registered: "try_register_agent_with_admission demo_start 9 cap_all None False True = (Inr 1, demo_gate)"
  by (simp add: gate_demo_defs demo_defs)

lemma demo_reached: "gate_reachable demo_sha [Tau] (demo_gate, [], None)"
proof -
  have "gstep demo_sha (demo_start, [], None) Tau (demo_gate, [], None)"
    by (rule gstep.register [OF _ demo_registered]) (simp add: room_def demo_start_def with_mac_def)
  then have "gruns demo_sha (demo_start, [], None) ([] @ [Tau]) (demo_gate, [], None)" by (blast intro: gruns.intros)
  then show ?thesis unfolding gate_reachable_def demo_start_def by (intro exI [of _ 1]) auto
qed

lemma demo_records: "map_of (records demo_gate) 9 = Some demo_record" "map_of (records demo_approved) 9 = Some demo_record"
  by (simp_all add: gate_demo_defs demo_defs)

lemma demo_granted: "grant_tool_approval_contract demo_sha demo_gate 9 ''t'' ''r'' ''k'' User = (True, demo_approved)"
  by (simp add: grant_tool_approval_contract_def demo_records demo_approved_def demo_key_def demo_record_def, simp add: gate_demo_defs demo_defs)

lemma demo_approved_reached: "gate_reachable demo_sha [Tau, Grant demo_key] (demo_approved, [], None)"
  using gate_reachable_step [OF demo_reached gstep.grant [OF demo_granted demo_records(1)]]
  by (simp add: demo_key_def demo_record_def)

lemma demo_begin: "begin_check demo_approved 9 demo_contract = (Inr demo_snapshot, demo_approved)"
  by (simp add: begin_check_def snapshot_locked [OF demo_records(2)] demo_snapshot_def snap_sel demo_record_def demo_contract_def
      contract_of_def demo_security_def security_argument_def security_new_def cap_has_def cap_all_def,
      simp add: gate_demo_defs demo_defs)

lemma demo_engine: "mac demo_approved = mac_new False"
  by (simp add: gate_demo_defs demo_defs load_policy_def mac_new_def)

lemma demo_mac: "mac_stage demo_sha demo_approved 9 demo_contract False demo_snapshot = (Inr False, demo_approved)"
  by (simp add: mac_stage_def demo_engine check_def evaluate_def mac_new_def)

lemma demo_slot_taken: "\<exists>g. slot_stage demo_approved 9 ''t'' (Some demo_snapshot) = (Inr demo_slot, g)"
  by (simp add: slot_stage_def acquire_tool_call_if_unchanged_def snapshot_locked [OF demo_records(2)] demo_snapshot_def
      acquire_tool_call_for_record_def snap_sel demo_record_def, simp add: gate_demo_defs demo_defs demo_slot_def)

lemma demo_stale: "map_of (agent_stats demo_approved) 9 = Some stats_default"
    "demo_snapshot\<lparr>snap_mac_revision := 0\<rparr> \<noteq> snapshot_of demo_approved ''t'' demo_record"
  by (simp add: gate_demo_defs demo_defs) (simp add: demo_snapshot_def snapshot_of_def, simp add: gate_demo_defs demo_defs)

lemma demo_spent: "consume_stage demo_approved 9 (Some (demo_key, User)) None 0 = ((True, None), demo_gate)"
  by (simp add: consume_stage_def approved_def demo_approved_def, simp add: gate_demo_defs demo_defs)

theorem admission_authorized_witness:
  "map_of (records demo_approved) 9 = Some demo_record \<and> check (mac demo_approved) 1 ''read'' ''r'' \<noteq> Deny \<and>
   1 \<in> set (mem (cgroups demo_approved) 1)"
proof -
  from demo_slot_taken obtain g where slot: "slot_stage demo_approved 9 (tc_tool demo_contract) (Some demo_snapshot) = (Inr demo_slot, g)"
    by (auto simp: demo_contract_def contract_of_def)
  have "length ([] :: ToolCallGuard list) < 2 ^ 32 - 1" by simp
  from admission_authorized [OF demo_approved_reached demo_begin gruns.none demo_mac gruns.none this slot]
  obtain r where "map_of (records demo_approved) 9 = Some r"
    and "check (mac demo_approved) (rec_pid r) (tc_action demo_contract) (tc_resource demo_contract) \<noteq> Deny"
    and "rec_pid r \<in> set (mem (cgroups demo_approved) (rec_cgroup r))" by blast
  then show ?thesis using demo_records(2)
    by (auto simp: demo_record_def demo_contract_def contract_of_def demo_security_def security_argument_def security_new_def)
qed

theorem approvals_single_use_witness:
  "count_list [Tau, Grant demo_key, Spend demo_key] (Spend demo_key) = 1 \<and>
   count_list [Tau, Grant demo_key, Spend demo_key] (Spend demo_key) \<le> count_list [Tau, Grant demo_key, Spend demo_key] (Grant demo_key)"
  using approvals_single_use [OF gate_reachable_step [OF demo_approved_reached gstep.spend [OF demo_spent]], of demo_key] by simp

theorem registrations_match_groups_witness:
  "1 \<in> set (mem (cgroups demo_approved) 1) \<and> map_of (records demo_approved) 9 = Some demo_record"
  using registrations_match_groups [OF demo_approved_reached demo_records(2), THEN conjunct1, THEN spec, of 1] demo_records(2)
  by (simp add: demo_record_def)

theorem gate_refines_spec_witness: "spec_ok (gate_abs (demo_approved, [], None))"
  using gate_refines_spec [OF demo_approved_reached] by blast

theorem authorize_decides_witness:
  "verdicts (snd (authorize_and_acquire_tool_call_declared_contract (\<lambda>_. Inr []) demo_sha demo_approved 9 ''t'' ''r'' demo_security
     demo_admission 0)) = verdicts demo_approved + 1"
  using authorize_decides [of demo_approved "\<lambda>_. Inr []" demo_contract "''t''" "''r''" demo_security "''k''" demo_admission
      demo_sha 9 0 "fst (authorize_and_acquire_tool_call_declared_contract (\<lambda>_. Inr []) demo_sha demo_approved 9 ''t'' ''r''
        demo_security demo_admission 0)" "snd (authorize_and_acquire_tool_call_declared_contract (\<lambda>_. Inr []) demo_sha
        demo_approved 9 ''t'' ''r'' demo_security demo_admission 0)", THEN conjunct1] gate_reachable_inv [OF demo_approved_reached]
  by (simp add: demo_contract_def demo_admission_def gate_inv_def)

theorem stale_admission_uncounted_witness:
  "fst (slot_stage demo_approved 9 ''t'' (Some (demo_snapshot\<lparr>snap_mac_revision := 0\<rparr>))) = Inl (Err AuthorizationStateChanged)"
  using stale_admission_uncounted [of demo_approved 9 demo_record "demo_snapshot\<lparr>snap_mac_revision := 0\<rparr>" "''t''" stats_default
      "fst (slot_stage demo_approved 9 ''t'' (Some (demo_snapshot\<lparr>snap_mac_revision := 0\<rparr>)))"
      "snd (slot_stage demo_approved 9 ''t'' (Some (demo_snapshot\<lparr>snap_mac_revision := 0\<rparr>)))"]
    demo_records(2) gate_reachable_inv [OF demo_approved_reached] demo_stale by (simp add: gate_inv_def)

end
