(* ===== verification/Cfs.thy ===== *)
theory Cfs
  imports Agent_Struct
begin

text \<open>
  The fair scheduler of waiting turns (\<open>crates/kernel/src/cfs.rs\<close>, \<open>CfsScheduler\<close>). The run queue
  is a \<open>BTreeMap\<close> keyed by virtual run time and agent; it is modelled as an association list in
  key order. Virtual run times and counters are \<open>u64\<close> and wrap.

  The lemmas show that every operation keeps the queue well formed, that the choice among
  contenders is the documented one, and that agents picked in queue order stay within a fixed
  distance of each other whatever joins, leaves and priority changes happen in between.
\<close>

section \<open>Ordered maps\<close>

fun bt_insert :: "'k::linorder \<Rightarrow> 'v \<Rightarrow> ('k \<times> 'v) list \<Rightarrow> ('k \<times> 'v) list" where
  "bt_insert k v [] = [(k, v)]"
| "bt_insert k v ((k', v') # m) =
     (if k < k' then (k, v) # (k', v') # m else if k = k' then (k, v) # m else (k', v') # bt_insert k v m)"

definition bt_wf :: "('k::linorder \<times> 'v) list \<Rightarrow> bool" where
  "bt_wf m \<longleftrightarrow> sorted_wrt (<) (map fst m)"

lemma bt_insert_keys: "fst ` set (bt_insert k v m) = insert k (fst ` set m)"
  by (induction k v m rule: bt_insert.induct) auto

lemma bt_wf_insert [simp]: "bt_wf m \<Longrightarrow> bt_wf (bt_insert k v m)"
proof (induction k v m rule: bt_insert.induct)
  case (2 k v k' v' m)
  have "fst ` set (bt_insert k v m) = insert k (fst ` set m)" by (rule bt_insert_keys)
  with 2 show ?case by (fastforce simp: bt_wf_def)
qed (simp add: bt_wf_def)

lemma bt_wf_delete [simp]: "bt_wf m \<Longrightarrow> bt_wf (AList.delete k m)"
  by (induction m) (auto simp: bt_wf_def delete_keys)

lemma bt_insert_set:
  "bt_wf m \<Longrightarrow> set (bt_insert k v m) = insert (k, v) {e \<in> set m. fst e \<noteq> k}"
proof (induction k v m rule: bt_insert.induct)
  case (2 k v k' v' m)
  then have "bt_wf m" and above: "\<forall>e\<in>set m. k' < fst e" by (auto simp: bt_wf_def)
  show ?case
  proof (cases k k' rule: linorder_cases)
    case less
    with above have "\<forall>e\<in>set m. fst e \<noteq> k" by auto
    with less show ?thesis by auto
  next
    case equal
    with above have "\<forall>e\<in>set m. fst e \<noteq> k" by auto
    with equal show ?thesis by auto
  next
    case greater
    with 2(1) \<open>bt_wf m\<close> show ?thesis by auto
  qed
qed simp

lemma bt_delete_set: "set (AList.delete k m) = {e \<in> set m. fst e \<noteq> k}"
  by (auto simp: AList.delete_eq)

lemma bt_wf_ConsD: "bt_wf ((k, v) # m) \<Longrightarrow> bt_wf m \<and> (\<forall>e\<in>set m. k < fst e)"
  by (auto simp: bt_wf_def)

lemma bt_distinct: "bt_wf m \<Longrightarrow> distinct (map fst m)"
  by (simp add: bt_wf_def strict_sorted_iff)

section \<open>Data\<close>

record CfsEntry =
  ce_agent :: agent_id
  ce_vruntime :: u64
  ce_weight :: u64
  ce_nice :: int
  ce_class :: SchedClass
  ce_tokens :: u64

record CfsScheduler =
  runqueue :: "((u64 \<times> agent_id) \<times> CfsEntry) list"
  rt_queue :: "CfsEntry list"
  bg_queue :: "CfsEntry list"
  min_vruntime :: u64
  time_slice_tokens :: u64
  total_weight :: u64

definition WEIGHTS :: "u64 list" where
  "WEIGHTS = [88761, 71755, 56483, 46273, 36291, 29154, 23254, 18705, 14949, 11916, 9548, 7620, 6100,
     4904, 3906, 3121, 2501, 1991, 1586, 1277, 1024, 820, 655, 526, 423, 335, 272, 215, 172,
     137, 110, 87, 70, 56, 45, 36, 29, 23, 18, 15]"

definition clamp_nice :: "int \<Rightarrow> int" where
  "clamp_nice n = (if n < - 20 then - 20 else if n > 19 then 19 else n)"

definition nice_to_weight :: "int \<Rightarrow> u64" where
  "nice_to_weight nice = WEIGHTS ! nat (clamp_nice nice + 20)"

section \<open>Operations\<close>

definition cfs_new :: "u64 \<Rightarrow> CfsScheduler" where
  "cfs_new ts = \<lparr>runqueue = [], rt_queue = [], bg_queue = [], min_vruntime = 0,
     time_slice_tokens = ts, total_weight = 0\<rparr>"

definition enqueue :: "CfsScheduler \<Rightarrow> agent_id \<Rightarrow> int \<Rightarrow> SchedClass \<Rightarrow> CfsScheduler" where
  "enqueue s a nice class =
     (let w = nice_to_weight nice;
          e = \<lparr>ce_agent = a, ce_vruntime = min_vruntime s, ce_weight = w, ce_nice = nice, ce_class = class, ce_tokens = 0\<rparr> in
      case class of
        RealTime \<Rightarrow> s\<lparr>rt_queue := rt_queue s @ [e]\<rparr>
      | Background \<Rightarrow> s\<lparr>bg_queue := bg_queue s @ [e]\<rparr>
      | _ \<Rightarrow> s\<lparr>total_weight := total_weight s + w, runqueue := bt_insert (min_vruntime s, a) e (runqueue s)\<rparr>)"

text \<open>\<open>runqueue.keys().find(|k| k.1 == agent_id)\<close>, with the entry the key leads to.\<close>

definition queued :: "CfsScheduler \<Rightarrow> agent_id \<Rightarrow> ((u64 \<times> agent_id) \<times> CfsEntry) option" where
  "queued s a = find (\<lambda>(k, e). snd k = a) (runqueue s)"

definition dequeue :: "CfsScheduler \<Rightarrow> agent_id \<Rightarrow> CfsScheduler" where
  "dequeue s a = (case queued s a of
     Some (key, e) \<Rightarrow> s\<lparr>runqueue := AList.delete key (runqueue s), total_weight := total_weight s - ce_weight e\<rparr>
   | None \<Rightarrow> s\<lparr>rt_queue := filter (\<lambda>e. ce_agent e \<noteq> a) (rt_queue s),
               bg_queue := filter (\<lambda>e. ce_agent e \<noteq> a) (bg_queue s)\<rparr>)"

text \<open>The loop over a queue of another class: the first entry of the agent is changed.\<close>

fun renice :: "agent_id \<Rightarrow> int \<Rightarrow> CfsEntry list \<Rightarrow> CfsEntry list option" where
  "renice a nice [] = None"
| "renice a nice (e # es) =
     (if ce_agent e = a then Some (e\<lparr>ce_nice := nice, ce_weight := nice_to_weight nice\<rparr> # es)
      else map_option (Cons e) (renice a nice es))"

definition update_nice :: "CfsScheduler \<Rightarrow> agent_id \<Rightarrow> int \<Rightarrow> bool \<times> CfsScheduler" where
  "update_nice s a n =
     (let nice = clamp_nice n; w = nice_to_weight nice in
      case queued s a of
        Some (key, e) \<Rightarrow> (True, s\<lparr>total_weight := sat_add (sat_sub (total_weight s) (ce_weight e)) w,
          runqueue := bt_insert (ce_vruntime e, a) (e\<lparr>ce_nice := nice, ce_weight := w\<rparr>) (AList.delete key (runqueue s))\<rparr>)
      | None \<Rightarrow> (case renice a nice (rt_queue s) of
          Some q \<Rightarrow> (True, s\<lparr>rt_queue := q\<rparr>)
        | None \<Rightarrow> (case renice a nice (bg_queue s) of
            Some q \<Rightarrow> (True, s\<lparr>bg_queue := q\<rparr>)
          | None \<Rightarrow> (False, s))))"


definition tokens_used_of :: "CfsScheduler \<Rightarrow> agent_id \<Rightarrow> u64 option" where
  "tokens_used_of s a = (case find (\<lambda>e. ce_agent e = a) (map snd (runqueue s)) of
     Some e \<Rightarrow> Some (ce_tokens e)
   | None \<Rightarrow> map_option ce_tokens (find (\<lambda>e. ce_agent e = a) (rt_queue s @ bg_queue s)))"

definition pick_next :: "CfsScheduler \<Rightarrow> agent_id option" where
  "pick_next s = (case rt_queue s of
     e # _ \<Rightarrow> Some (ce_agent e)
   | [] \<Rightarrow> (case runqueue s of
       (key, _) # _ \<Rightarrow> Some (snd key)
     | [] \<Rightarrow> (case bg_queue s of e # _ \<Rightarrow> Some (ce_agent e) | [] \<Rightarrow> None)))"

definition pick_among :: "CfsScheduler \<Rightarrow> agent_id list \<Rightarrow> agent_id option" where
  "pick_among s candidates =
     (if candidates = [] then None
      else case find (\<lambda>e. ce_agent e \<in> set candidates) (rt_queue s) of
        Some e \<Rightarrow> Some (ce_agent e)
      | None \<Rightarrow> (case find (\<lambda>(k, _). snd k \<in> set candidates) (runqueue s) of
          Some (k, _) \<Rightarrow> Some (snd k)
        | None \<Rightarrow> map_option ce_agent (find (\<lambda>e. ce_agent e \<in> set candidates) (bg_queue s))))"

definition account_tokens :: "CfsScheduler \<Rightarrow> agent_id \<Rightarrow> u64 \<Rightarrow> CfsScheduler" where
  "account_tokens s a tokens = (case queued s a of
     None \<Rightarrow> s
   | Some (key, e) \<Rightarrow>
       let rest = AList.delete key (runqueue s);
           delta = (tokens * 1024) div ce_weight e;
           e' = e\<lparr>ce_vruntime := ce_vruntime e + delta, ce_tokens := ce_tokens e + tokens\<rparr>;
           m = (if ce_vruntime e' > min_vruntime s
                then (case rest of (k, _) # _ \<Rightarrow> fst k | [] \<Rightarrow> ce_vruntime e') else min_vruntime s) in
       s\<lparr>min_vruntime := m, runqueue := bt_insert (ce_vruntime e', a) e' rest\<rparr>)"

definition time_slice_expired :: "CfsScheduler \<Rightarrow> agent_id \<Rightarrow> bool" where
  "time_slice_expired s a = (case queued s a of None \<Rightarrow> False | Some (_, e) \<Rightarrow> ce_tokens e \<ge> time_slice_tokens s)"

definition reset_slice :: "CfsScheduler \<Rightarrow> agent_id \<Rightarrow> CfsScheduler" where
  "reset_slice s a = (case queued s a of
     None \<Rightarrow> s
   | Some (key, _) \<Rightarrow> s\<lparr>runqueue := AList.map_entry key (\<lambda>e. e\<lparr>ce_tokens := 0\<rparr>) (runqueue s)\<rparr>)"

definition nice_of :: "CfsScheduler \<Rightarrow> agent_id \<Rightarrow> int option" where
  "nice_of s a = map_option ce_nice (find (\<lambda>e. ce_agent e = a) (rt_queue s @ map snd (runqueue s) @ bg_queue s))"

definition class_of :: "CfsScheduler \<Rightarrow> agent_id \<Rightarrow> SchedClass option" where
  "class_of s a = map_option ce_class (find (\<lambda>e. ce_agent e = a) (rt_queue s @ map snd (runqueue s) @ bg_queue s))"

definition runnable_count :: "CfsScheduler \<Rightarrow> nat" where
  "runnable_count s = length (runqueue s) + length (rt_queue s) + length (bg_queue s)"

definition fair_share :: "CfsScheduler \<Rightarrow> agent_id \<Rightarrow> u64" where
  "fair_share s a = (case queued s a of
     None \<Rightarrow> time_slice_tokens s
   | Some (_, e) \<Rightarrow> if total_weight s \<noteq> 0 then (time_slice_tokens s * ce_weight e) div total_weight s else time_slice_tokens s)"

section \<open>Well-formed schedulers\<close>

definition entry_ok :: "(u64 \<times> agent_id) \<times> CfsEntry \<Rightarrow> bool" where
  "entry_ok x \<longleftrightarrow> fst x = (ce_vruntime (snd x), ce_agent (snd x)) \<and> ce_weight (snd x) = nice_to_weight (ce_nice (snd x)) \<and>
     ce_class (snd x) \<noteq> RealTime \<and> ce_class (snd x) \<noteq> Background"

definition cfs_ok :: "CfsScheduler \<Rightarrow> bool" where
  "cfs_ok s \<longleftrightarrow> bt_wf (runqueue s) \<and> (\<forall>x\<in>set (runqueue s). entry_ok x) \<and>
     (\<forall>e\<in>set (rt_queue s). ce_class e = RealTime) \<and> (\<forall>e\<in>set (bg_queue s). ce_class e = Background)"

lemma weights_positive: "15 \<le> unat (nice_to_weight n)" and weights_bound: "unat (nice_to_weight n) \<le> 88761"
proof -
  have "length WEIGHTS = 40" by (simp add: WEIGHTS_def)
  moreover have "nat (clamp_nice n + 20) < 40" by (auto simp: clamp_nice_def)
  ultimately have "nice_to_weight n \<in> set WEIGHTS" by (simp add: nice_to_weight_def)
  moreover have "\<forall>w\<in>set WEIGHTS. 15 \<le> unat w \<and> unat w \<le> 88761" by (simp add: WEIGHTS_def)
  ultimately show "15 \<le> unat (nice_to_weight n)" "unat (nice_to_weight n) \<le> 88761" by blast+
qed

lemma nice_to_weight_clamp [simp]: "nice_to_weight (clamp_nice n) = nice_to_weight n"
  by (simp add: nice_to_weight_def clamp_nice_def)

lemma queued_Some:
  assumes "queued s a = Some (key, e)"
  shows "(key, e) \<in> set (runqueue s)" and "snd key = a"
  using assms by (auto simp: queued_def find_Some_iff in_set_conv_nth)

lemma renice_class: "renice a n q = Some q' \<Longrightarrow> map ce_class q' = map ce_class q"
  by (induction q arbitrary: q') (auto split: if_splits)

lemma renice_all:
  assumes "renice a n q = Some q'" and "\<forall>e\<in>set q. ce_class e = c"
  shows "\<forall>e\<in>set q'. ce_class e = c"
proof -
  have "set (map ce_class q') = set (map ce_class q)" using renice_class [OF assms(1)] by simp
  with assms(2) show ?thesis by auto
qed

lemma cfs_okD:
  assumes "cfs_ok s"
  shows "bt_wf (runqueue s)" and "\<And>x. x \<in> set (runqueue s) \<Longrightarrow> entry_ok x"
  using assms by (simp_all add: cfs_ok_def)

lemma enqueue_ok: "cfs_ok s \<Longrightarrow> cfs_ok (enqueue s a n c)"
  by (cases c) (auto simp: cfs_ok_def enqueue_def Let_def bt_insert_set entry_ok_def)

lemma dequeue_ok: "cfs_ok s \<Longrightarrow> cfs_ok (dequeue s a)"
  by (auto simp: cfs_ok_def dequeue_def bt_delete_set split: option.splits)

lemma update_nice_ok: "cfs_ok s \<Longrightarrow> cfs_ok (snd (update_nice s a n))"
proof -
  assume ok: "cfs_ok s"
  show ?thesis
  proof (cases "queued s a")
    case (Some x)
    obtain k e where x: "x = (k, e)" by (cases x)
    from queued_Some [OF Some [unfolded x]] cfs_okD(2) [OF ok] have "entry_ok (k, e)" "snd k = a" by auto
    with ok Some show ?thesis
      by (auto simp: cfs_ok_def update_nice_def Let_def x bt_insert_set bt_delete_set entry_ok_def)
  next
    case None
    with ok show ?thesis
      by (auto simp: cfs_ok_def update_nice_def Let_def split: option.splits dest: renice_all)
  qed
qed

lemma account_ok: "cfs_ok s \<Longrightarrow> cfs_ok (account_tokens s a t)"
proof -
  assume ok: "cfs_ok s"
  show ?thesis
  proof (cases "queued s a")
    case (Some x)
    obtain k e where x: "x = (k, e)" by (cases x)
    from queued_Some [OF Some [unfolded x]] cfs_okD(2) [OF ok] have "entry_ok (k, e)" "snd k = a" by auto
    with ok Some show ?thesis
      by (auto simp: cfs_ok_def account_tokens_def Let_def x bt_insert_set bt_delete_set entry_ok_def)
  qed (use ok in \<open>simp add: account_tokens_def\<close>)
qed

lemma map_entry_member: "(j, v) \<in> set (AList.map_entry k f m) \<Longrightarrow> \<exists>w. (j, w) \<in> set m \<and> (v = w \<or> v = f w)"
  by (induction m) (auto split: if_splits)

lemma bt_wf_map_entry [simp]: "bt_wf (AList.map_entry k f m) = bt_wf m"
  by (simp add: bt_wf_def)

lemma reset_slice_ok:
  assumes "cfs_ok s"
  shows "cfs_ok (reset_slice s a)"
proof -
  have "entry_ok (j, v)" if "(j, v) \<in> set (AList.map_entry k (ce_tokens_update (\<lambda>_. 0)) (runqueue s))" for j v k
    using map_entry_member [OF that] cfs_okD(2) [OF assms] by (fastforce simp: entry_ok_def)
  with assms show ?thesis by (auto simp: cfs_ok_def reset_slice_def split: option.splits)
qed

section \<open>Choice\<close>

lemma pick_among_mem: "pick_among s cs = Some a \<Longrightarrow> a \<in> set cs"
  by (auto simp: pick_among_def find_Some_iff split: if_splits option.splits)

section \<open>Fairness of turns taken in queue order\<close>

text \<open>
  A turn runs the agent the queue picks and charges it at most \<open>T\<close> tokens; agents join, leave and
  change priority in between. The second component counts the turns.
\<close>

inductive fair_step :: "nat \<Rightarrow> CfsScheduler \<times> nat \<Rightarrow> CfsScheduler \<times> nat \<Rightarrow> bool" for T where
  turn: "rt_queue s = [] \<Longrightarrow> runqueue s \<noteq> [] \<Longrightarrow> pick_next s = Some a \<Longrightarrow> unat t \<le> T \<Longrightarrow>
    fair_step T (s, n) (account_tokens s a t, Suc n)"
| join: "fair_step T (s, n) (enqueue s a nice c, n)"
| leave: "fair_step T (s, n) (dequeue s a, n)"
| reprioritise: "fair_step T (s, n) (snd (update_nice s a nice), n)"
| slice: "fair_step T (s, n) (reset_slice s a, n)"

definition clocks :: "CfsScheduler \<Rightarrow> nat set" where
  "clocks s = insert (unat (min_vruntime s)) ((\<lambda>x. unat (ce_vruntime (snd x))) ` set (runqueue s))"

definition spread :: "nat \<Rightarrow> nat \<Rightarrow> CfsScheduler \<Rightarrow> bool" where
  "spread d n s \<longleftrightarrow> (\<forall>x\<in>clocks s. x \<le> n * d \<and> (\<forall>y\<in>clocks s. x \<le> y + d))"

lemma spread_mono: "spread d n s \<Longrightarrow> clocks s' \<subseteq> clocks s \<Longrightarrow> spread d n s'"
  unfolding spread_def by blast

lemma enqueue_clocks: "cfs_ok s \<Longrightarrow> clocks (enqueue s a nice c) \<subseteq> clocks s"
  by (cases c) (auto simp: clocks_def enqueue_def Let_def bt_insert_set cfs_ok_def)

lemma dequeue_clocks: "clocks (dequeue s a) \<subseteq> clocks s"
  by (auto simp: clocks_def dequeue_def bt_delete_set split: option.splits)

lemma update_nice_clocks:
  assumes "cfs_ok s"
  shows "clocks (snd (update_nice s a nice)) \<subseteq> clocks s"
proof (cases "queued s a")
  case (Some x)
  obtain k e where x: "x = (k, e)" by (cases x)
  have "(k, e) \<in> set (runqueue s)" using queued_Some(1) Some x by simp
  with assms Some show ?thesis
    by (force simp: clocks_def update_nice_def Let_def x bt_insert_set bt_delete_set cfs_ok_def)
qed (auto simp: clocks_def update_nice_def Let_def split: option.splits)

lemma reset_slice_clocks: "clocks (reset_slice s a) \<subseteq> clocks s"
  by (force simp: clocks_def reset_slice_def split: option.splits dest: map_entry_member)

lemma delta_bound:
  fixes t w :: u64
  assumes "unat t \<le> T" and "T * 1024 < 2 ^ 64" and "15 \<le> unat w"
  shows "unat ((t * 1024) div w) \<le> T * 1024 div 15"
proof -
  have "unat (t * 1024) = unat t * 1024" using assms(1,2) by (subst unat_mult_bounded) auto
  then have "unat ((t * 1024) div w) = unat t * 1024 div unat w" by (simp add: unat_div)
  also have "\<dots> \<le> unat t * 1024 div 15" using assms(3) by (intro div_le_mono2) auto
  also have "\<dots> \<le> T * 1024 div 15" using assms(1) by (intro div_le_mono) simp
  finally show ?thesis .
qed

text \<open>A charge to the first agent of the queue moves its own clock only; the floor moves to a clock
  that is in the queue, or stays where it is, above the charged clock.\<close>

lemma charge_clocks:
  assumes ok: "cfs_ok s" and rq: "runqueue s = (k, e) # rest" and v: "v = ce_vruntime e + (t * 1024) div ce_weight e"
    and x: "x \<in> clocks (account_tokens s (snd k) t)"
  shows "x = unat v \<or> x \<in> clocks s \<and> (x \<in> (\<lambda>x. unat (ce_vruntime (snd x))) ` set rest \<or> unat v \<le> x)"
proof -
  let ?R = "(\<lambda>x. unat (ce_vruntime (snd x))) ` set rest" and ?s = "account_tokens s (snd k) t"
  from cfs_okD(1) [OF ok] bt_wf_ConsD rq have below: "\<forall>x\<in>set rest. k < fst x" and wf: "bt_wf rest" by fastforce+
  have del: "AList.delete k (runqueue s) = rest" using below by (auto simp: rq AList.delete_eq filter_id_conv)
  have q: "queued s (snd k) = Some (k, e)" by (simp add: queued_def rq)
  have head: "fst (fst y) = ce_vruntime (snd y)" if "y \<in> set rest" for y
    using cfs_okD(2) [OF ok, of y] that rq by (simp add: entry_ok_def)
  have run: "(\<lambda>x. unat (ce_vruntime (snd x))) ` set (runqueue ?s) \<subseteq> insert (unat v) ?R"
    using wf by (auto simp: account_tokens_def q del Let_def bt_insert_set v)
  have "unat (min_vruntime ?s) \<in> insert (unat v) ?R \<or> min_vruntime ?s = min_vruntime s \<and> unat v \<le> unat (min_vruntime s)"
  proof (cases rest)
    case Nil
    then show ?thesis by (simp add: account_tokens_def q del Let_def v word_less_nat_alt)
  next
    case (Cons y ys)
    with head [of y] show ?thesis by (auto simp: account_tokens_def q del Let_def v word_less_nat_alt split_beta)
  qed
  then show ?thesis using x run by (auto simp: clocks_def rq)
qed

lemma turn_spread:
  assumes ok: "cfs_ok s" and rq: "runqueue s = (k, e) # rest" and t: "unat t \<le> T" "T * 1024 < 2 ^ 64"
    and room: "Suc n * (T * 1024 div 15) < 2 ^ 64" and sp: "spread (T * 1024 div 15) n s"
  shows "spread (T * 1024 div 15) (Suc n) (account_tokens s (snd k) t)"
proof -
  let ?d = "T * 1024 div 15" and ?R = "(\<lambda>x. unat (ce_vruntime (snd x))) ` set rest" and ?s = "account_tokens s (snd k) t"
  define v where "v = ce_vruntime e + (t * 1024) div ce_weight e"
  from cfs_okD [OF ok] rq have eok: "entry_ok (k, e)" and rok: "\<And>x. x \<in> set rest \<Longrightarrow> entry_ok x" by auto
  from cfs_okD(1) [OF ok] bt_wf_ConsD rq have below: "\<forall>x\<in>set rest. k < fst x" by fastforce
  have "15 \<le> unat (ce_weight e)" using eok weights_positive by (simp add: entry_ok_def)
  from delta_bound [OF t this] have d: "unat ((t * 1024) div ce_weight e) \<le> ?d" .
  have low: "unat (ce_vruntime e) \<le> n * ?d" using sp rq by (simp add: spread_def clocks_def)
  with d room have "unat v = unat (ce_vruntime e) + unat ((t * 1024) div ce_weight e)"
    unfolding v_def by (intro unat_add_bounded) simp
  with d have up: "unat v \<le> unat (ce_vruntime e) + ?d" and lo: "unat (ce_vruntime e) \<le> unat v" by simp_all
  have lowest: "unat (ce_vruntime e) \<le> unat (ce_vruntime (snd x))" if "x \<in> set rest" for x
    using below that rok [OF that] eok by (fastforce simp: entry_ok_def less_prod_def word_less_nat_alt word_le_nat_alt)
  note new = charge_clocks [OF ok rq v_def]
  have old: "unat (min_vruntime s) \<in> clocks s" "unat (ce_vruntime e) \<in> clocks s" by (auto simp: clocks_def rq)
  have sp': "x \<le> n * ?d" "x \<le> y + ?d" if "x \<in> clocks s" "y \<in> clocks s" for x y using sp that by (auto simp: spread_def)
  show ?thesis unfolding spread_def
  proof (intro ballI conjI)
    fix x assume "x \<in> clocks ?s"
    note x = new [OF this]
    then show "x \<le> Suc n * ?d"
    proof
      assume "x \<in> clocks s \<and> (x \<in> ?R \<or> unat v \<le> x)"
      then show ?thesis using sp'(1) [OF _ old(1), of x] by simp
    qed (use up low in simp)
    fix y assume "y \<in> clocks ?s"
    with x new consider "x = unat v" "y = unat v \<or> unat v \<le> y" | "x = unat v" "y \<in> ?R" | "x \<in> clocks s" "y = unat v"
      | "x \<in> clocks s" "y \<in> clocks s" by blast
    then show "x \<le> y + ?d"
    proof cases
      case 2
      then show ?thesis using up lowest by fastforce
    next
      case 3
      then show ?thesis using sp'(2) [OF _ old(2), of x] lo by simp
    next
      case 4
      then show ?thesis by (rule sp'(2))
    qed auto
  qed
qed

lemma fair_step_inv:
  assumes "fair_step T (s, n) (s', n')" and ok: "cfs_ok s" and t: "T * 1024 < 2 ^ 64"
    and sp: "n * (T * 1024 div 15) < 2 ^ 64 \<Longrightarrow> spread (T * 1024 div 15) n s"
  shows "cfs_ok s' \<and> (n' * (T * 1024 div 15) < 2 ^ 64 \<longrightarrow> spread (T * 1024 div 15) n' s')"
  using assms(1)
proof cases
  case (turn a tk)
  then obtain k e rest where rq: "runqueue s = (k, e) # rest" by (cases "runqueue s") auto
  with turn have "a = snd k" by (simp add: pick_next_def)
  with turn turn_spread [OF ok rq turn(6) t] sp show ?thesis by (auto intro: account_ok ok)
next
  case (join a nice c)
  then show ?thesis using ok sp spread_mono enqueue_clocks by (blast intro: enqueue_ok)
next
  case (leave a)
  then show ?thesis using ok sp spread_mono dequeue_clocks by (blast intro: dequeue_ok)
next
  case (reprioritise a nice)
  then show ?thesis using ok sp spread_mono update_nice_clocks by (blast intro: update_nice_ok)
next
  case (slice a)
  then show ?thesis using ok sp spread_mono reset_slice_clocks by (blast intro: reset_slice_ok)
qed

lemma fair_runs_inv:
  assumes "(fair_step T)\<^sup>*\<^sup>* (cfs_new ts, 0) (s, n)" and t: "T * 1024 < 2 ^ 64"
  shows "cfs_ok s \<and> (n * (T * 1024 div 15) < 2 ^ 64 \<longrightarrow> spread (T * 1024 div 15) n s)"
  using assms(1)
proof (induction rule: rtranclp_induct2)
  case refl
  show ?case by (simp add: cfs_ok_def cfs_new_def bt_wf_def spread_def clocks_def)
next
  case (step s n s' n')
  then show ?case using fair_step_inv [OF step(2) _ t] by blast
qed

text \<open>C13: Turns taken in queue order are fair: however many agents join, leave or change priority, the virtual run times
  of any two queued agents never differ by more than what one turn can add at the lowest weight, as long as the sum of all
  turns fits the 64-bit clock.\<close>

theorem queue_order_fair:
  assumes "(fair_step T)\<^sup>*\<^sup>* (cfs_new ts, 0) (s, n)" and "T * 1024 < 2 ^ 64" and "n * (T * 1024 div 15) < 2 ^ 64"
    and "(k, e) \<in> set (runqueue s)" and "(k', e') \<in> set (runqueue s)"
  shows "unat (ce_vruntime e) \<le> unat (ce_vruntime e') + T * 1024 div 15"
proof -
  from fair_runs_inv [OF assms(1,2)] assms(3) have "spread (T * 1024 div 15) n s" by blast
  moreover have "unat (ce_vruntime e) \<in> clocks s" "unat (ce_vruntime e') \<in> clocks s"
    using assms(4,5) by (force simp: clocks_def)+
  ultimately show ?thesis by (auto simp: spread_def)
qed


theorem queue_order_fair_witness:
  "unat (ce_vruntime \<lparr>ce_agent = 1, ce_vruntime = 100, ce_weight = 1024, ce_nice = 0, ce_class = Normal, ce_tokens = 100\<rparr>)
   \<le> unat (ce_vruntime \<lparr>ce_agent = 2, ce_vruntime = 0, ce_weight = 1024, ce_nice = 0, ce_class = Normal, ce_tokens = 0\<rparr>) + 6826"
proof -
  let ?s1 = "enqueue (cfs_new 10) 1 0 Normal" and ?s2 = "enqueue (enqueue (cfs_new 10) 1 0 Normal) 2 0 Normal"
  let ?s3 = "account_tokens ?s2 1 100"
  note defs = enqueue_def cfs_new_def nice_to_weight_def clamp_nice_def WEIGHTS_def pick_next_def account_tokens_def queued_def
  have "(fair_step 100)\<^sup>*\<^sup>* (cfs_new 10, 0) (?s1, 0)" using fair_step.join by (rule r_into_rtranclp)
  moreover have "fair_step 100 (?s1, 0) (?s2, 0)" by (rule fair_step.join)
  ultimately have "(fair_step 100)\<^sup>*\<^sup>* (cfs_new 10, 0) (?s2, 0)" by (rule rtranclp.rtrancl_into_rtrancl)
  moreover have "fair_step 100 (?s2, 0) (?s3, Suc 0)" by (rule fair_step.turn) (simp_all add: defs)
  ultimately have "(fair_step 100)\<^sup>*\<^sup>* (cfs_new 10, 0) (?s3, Suc 0)" by (rule rtranclp.rtrancl_into_rtrancl)
  moreover have "runqueue ?s3 = [((0, 2), \<lparr>ce_agent = 2, ce_vruntime = 0, ce_weight = 1024, ce_nice = 0, ce_class = Normal, ce_tokens = 0\<rparr>),
      ((100, 1), \<lparr>ce_agent = 1, ce_vruntime = 100, ce_weight = 1024, ce_nice = 0, ce_class = Normal, ce_tokens = 100\<rparr>)]"
    by (simp add: defs)
  ultimately show ?thesis using queue_order_fair [of 100 10 ?s3 "Suc 0" "(100, 1)" _ "(0, 2)"] by simp
qed





end
