(* ===== verification/Admission.thy ===== *)
theory Admission
  imports Cfs
begin

text \<open>
  Bounded admission: \<open>TurnAdmission\<close> of \<open>crates/kernel/src/cfs.rs\<close>, which bounds concurrent agent
  turns, and \<open>LlmScheduler\<close> of \<open>crates/kernel/src/llm_sched.rs\<close>, which bounds concurrent provider
  requests. A waiter registers, tries until it is the preferred waiter and a slot is free, and
  may be cancelled; a slot is given back when its guard is dropped. Each definition is one
  section under the state's mutex; a clock is read by its caller and passed in, in nanoseconds.
  Waking up (the notifier and the polling timeout) has no state.

  Both are instances of one contract, the locale \<open>slot_pool\<close>, whose invariant is proved once.
\<close>

section \<open>The contract\<close>

text \<open>
  A pool hands out at most \<open>cap\<close> slots to holders of tickets. \<open>step\<close> relates a pool and the number of
  live slots to their successors.
\<close>

locale slot_pool =
  fixes step :: "'s \<times> nat \<Rightarrow> 's \<times> nat \<Rightarrow> bool"
    and used :: "'s \<Rightarrow> nat" and cap :: "'s \<Rightarrow> nat" and room :: "'s \<Rightarrow> nat"
    and tickets :: "'s \<Rightarrow> u64 list" and fresh :: "'s \<Rightarrow> u64"
  assumes same_size: "step (s, n) (s', n') \<Longrightarrow> cap s' = cap s \<and> room s' = room s"
    and shape: "step (s, n) (s', n') \<Longrightarrow>
      length (tickets s) < room s \<and> unat (fresh s) < 2 ^ 64 - 1 \<and> tickets s' = tickets s @ [fresh s] \<and>
        fresh s' = fresh s + 1 \<and> used s' = used s \<and> n' = n
      \<or> used s < cap s \<and> (\<exists>t\<in>set (tickets s). tickets s' = remove1 t (tickets s)) \<and> fresh s' = fresh s \<and>
        used s' = Suc (used s) \<and> n' = Suc n
      \<or> (\<exists>P. tickets s' = filter P (tickets s)) \<and> fresh s' = fresh s \<and> used s' = used s \<and> n' = n
      \<or> n = Suc n' \<and> tickets s' = tickets s \<and> fresh s' = fresh s \<and> used s' = used s - 1"
begin

definition pool_ok :: "'s \<Rightarrow> nat \<Rightarrow> bool" where
  "pool_ok s n \<longleftrightarrow> used s = n \<and> n \<le> cap s \<and> length (tickets s) \<le> room s \<and> distinct (tickets s) \<and>
     (\<forall>t\<in>set (tickets s). unat t < unat (fresh s))"

lemma step_ok:
  assumes "step (s, n) (s', n')" and "pool_ok s n"
  shows "pool_ok s' n'"
  using shape [OF assms(1)]
proof (elim disjE conjE bexE exE)
  assume a: "length (tickets s) < room s" "unat (fresh s) < 2 ^ 64 - 1" "tickets s' = tickets s @ [fresh s]"
    "fresh s' = fresh s + 1" "used s' = used s" "n' = n"
  then have "unat (fresh s') = Suc (unat (fresh s))" by (subst a(4), subst unat_add_bounded) auto
  with a assms(2) same_size [OF assms(1)] show ?thesis by (fastforce simp: pool_ok_def)
next
  fix t assume "used s < cap s" "t \<in> set (tickets s)" "tickets s' = remove1 t (tickets s)" "fresh s' = fresh s"
    "used s' = Suc (used s)" "n' = Suc n"
  then show ?thesis using assms(2) same_size [OF assms(1)]
    by (auto simp: pool_ok_def length_remove1 dest: notin_set_remove1 [rotated])
next
  fix P assume "tickets s' = filter P (tickets s)" "fresh s' = fresh s" "used s' = used s" "n' = n"
  then show ?thesis using assms(2) same_size [OF assms(1)]
    by (auto simp: pool_ok_def intro: le_trans [OF length_filter_le])
next
  assume "n = Suc n'" "tickets s' = tickets s" "fresh s' = fresh s" "used s' = used s - 1"
  then show ?thesis using assms(2) same_size [OF assms(1)] by (auto simp: pool_ok_def)
qed

lemma runs_ok:
  assumes "step\<^sup>*\<^sup>* (s, n) (s', n')" and "pool_ok s n"
  shows "pool_ok s' n' \<and> cap s' = cap s \<and> room s' = room s"
  using assms by (induction rule: rtranclp_induct2) (auto dest: step_ok same_size)

end

section \<open>Turns\<close>

datatype SchedulerError =
    QueueFull
  | AgentNotScheduled uuid
  | DeadlockDetected
  | AdmissionQueueFull nat
  | AdmissionCancelled u64
  | LlmQueueFull nat
  | LlmAdmissionCancelled u64

record TurnWaiter =
  tw_agent :: agent_id
  tw_class :: SchedClass
  tw_seq :: u64
  tw_enqueued_at :: nat

record TurnAdmission =
  running :: nat
  max_concurrent :: nat
  max_waiters :: nat
  next_seq :: u64
  waiters :: "TurnWaiter list"
  starvation_threshold :: nat
  admitted_total :: u64
  admitted_realtime_total :: u64
  admitted_normal_total :: u64
  admitted_background_total :: u64
  admitted_deadline_total :: u64
  cancelled_total :: u64
  cooperative_yields_total :: u64
  wait_ns_total :: u64
  run_ns_total :: u64
  starvation_total :: u64

text \<open>\<open>elapsed().as_nanos()\<close>, cut to 64 bits; \<open>Instant::elapsed\<close> does not go below zero.\<close>

definition elapsed :: "nat \<Rightarrow> nat \<Rightarrow> nat" where
  "elapsed now at = now - at"

definition nanos :: "nat \<Rightarrow> u64" where
  "nanos d = word_of_nat (min d (2 ^ 64 - 1))"

definition with_queue_limit_and_starvation_threshold :: "nat \<Rightarrow> nat \<Rightarrow> nat \<Rightarrow> TurnAdmission" where
  "with_queue_limit_and_starvation_threshold maxc maxw threshold =
     \<lparr>running = 0, max_concurrent = max maxc 1, max_waiters = max maxw 1, next_seq = 0, waiters = [],
      starvation_threshold = threshold, admitted_total = 0, admitted_realtime_total = 0, admitted_normal_total = 0,
      admitted_background_total = 0, admitted_deadline_total = 0, cancelled_total = 0, cooperative_yields_total = 0,
      wait_ns_total = 0, run_ns_total = 0, starvation_total = 0\<rparr>"

definition with_queue_limit :: "nat \<Rightarrow> nat \<Rightarrow> TurnAdmission" where
  "with_queue_limit maxc maxw = with_queue_limit_and_starvation_threshold maxc maxw (30 * 10 ^ 9)"

definition turn_admission_new :: "nat \<Rightarrow> TurnAdmission" where
  "turn_admission_new n =
     (let maxc = (if n = 0 then usize_max else n);
          maxw = (if maxc = usize_max then usize_max else max (min (maxc * 64) usize_max) 64) in
      with_queue_limit maxc maxw)"

text \<open>Section one of \<open>acquire_inner\<close>: the class is read from the scheduler, then the waiter registers.\<close>

definition register_turn :: "TurnAdmission \<Rightarrow> agent_id \<Rightarrow> CfsScheduler \<Rightarrow> nat \<Rightarrow> (SchedulerError + u64) \<times> TurnAdmission" where
  "register_turn st a cfs now =
     (if length (waiters st) \<ge> max_waiters st then (Inl (AdmissionQueueFull (max_waiters st)), st)
      else
        let q = next_seq st;
            class = (case class_of cfs a of Some c \<Rightarrow> c | None \<Rightarrow> Normal) in
        (Inr q, st\<lparr>next_seq := q + 1,
           waiters := waiters st @ [\<lparr>tw_agent = a, tw_class = class, tw_seq = q, tw_enqueued_at = now\<rparr>]\<rparr>))"

text \<open>Section two: the waiters, if a slot is free.\<close>

definition snapshot_waiters :: "TurnAdmission \<Rightarrow> TurnWaiter list option" where
  "snapshot_waiters st = (if running st < max_concurrent st then Some (waiters st) else None)"

definition min_seq :: "u64 list \<Rightarrow> u64 option" where
  "min_seq xs = (if xs = [] then None else Some (Min (set xs)))"

text \<open>Which of them goes next. Every waiter's age is its own clock reading.\<close>

definition preferred_seq :: "nat \<Rightarrow> (TurnWaiter \<Rightarrow> nat) \<Rightarrow> (agent_id list \<Rightarrow> agent_id option) \<Rightarrow> TurnWaiter list \<Rightarrow> u64 option" where
  "preferred_seq threshold age pick ws =
     (case min_seq (map tw_seq (filter (\<lambda>w. age w \<ge> threshold) ws)) of
        Some q \<Rightarrow> Some q
      | None \<Rightarrow>
          (case Option.bind (pick (map tw_agent ws)) (\<lambda>a. min_seq (map tw_seq (filter (\<lambda>w. tw_agent w = a) ws))) of
             Some q \<Rightarrow> Some q
           | None \<Rightarrow> min_seq (map tw_seq ws)))"

text \<open>Section three, for the preferred waiter: is a slot still free, is it still registered?\<close>

definition count_admission :: "SchedClass \<Rightarrow> TurnAdmission \<Rightarrow> TurnAdmission" where
  "count_admission class st =
     (let s1 = st\<lparr>admitted_total := admitted_total st + 1\<rparr> in
      case class of
        RealTime \<Rightarrow> s1\<lparr>admitted_realtime_total := admitted_realtime_total s1 + 1\<rparr>
      | Normal \<Rightarrow> s1\<lparr>admitted_normal_total := admitted_normal_total s1 + 1\<rparr>
      | Background \<Rightarrow> s1\<lparr>admitted_background_total := admitted_background_total s1 + 1\<rparr>
      | Deadline _ \<Rightarrow> s1\<lparr>admitted_deadline_total := admitted_deadline_total s1 + 1\<rparr>)"

definition admit_turn :: "TurnAdmission \<Rightarrow> agent_id \<Rightarrow> u64 \<Rightarrow> nat \<Rightarrow> (SchedulerError + bool) \<times> TurnAdmission" where
  "admit_turn st a q now =
     (if running st < max_concurrent st then
        (case position (\<lambda>w. tw_seq w = q) (waiters st) of
           None \<Rightarrow> (Inl (AdmissionCancelled a), st)
         | Some i \<Rightarrow>
             let w = waiters st ! i;
                 waited = elapsed now (tw_enqueued_at w);
                 s1 = count_admission (tw_class w)
                   (st\<lparr>waiters := remove_at i (waiters st), running := running st + 1\<rparr>);
                 s2 = s1\<lparr>wait_ns_total := wait_ns_total s1 + nanos waited\<rparr> in
             (Inr True, if waited \<ge> starvation_threshold s2 then s2\<lparr>starvation_total := starvation_total s2 + 1\<rparr> else s2))
      else (Inr False, st))"

text \<open>One pass of the loop without interruption.\<close>

definition try_turn ::
    "TurnAdmission \<Rightarrow> agent_id \<Rightarrow> u64 \<Rightarrow> CfsScheduler \<Rightarrow> (TurnWaiter \<Rightarrow> nat) \<Rightarrow> nat \<Rightarrow> (SchedulerError + bool) \<times> TurnAdmission" where
  "try_turn st a q cfs age now =
     (case snapshot_waiters st of
        None \<Rightarrow> (Inr False, st)
      | Some ws \<Rightarrow>
          if preferred_seq (starvation_threshold st) age (pick_among cfs) ws = Some q then admit_turn st a q now
          else (Inr False, st))"

definition record_cooperative_yield :: "TurnAdmission \<Rightarrow> TurnAdmission" where
  "record_cooperative_yield st = st\<lparr>cooperative_yields_total := cooperative_yields_total st + 1\<rparr>"

text \<open>Dropping the registration of a waiter that was not admitted, and dropping a slot.\<close>

definition drop_registration :: "TurnAdmission \<Rightarrow> u64 \<Rightarrow> TurnAdmission" where
  "drop_registration st q =
     (let ws = filter (\<lambda>w. tw_seq w \<noteq> q) (waiters st);
          s1 = st\<lparr>waiters := ws\<rparr> in
      if length ws \<noteq> length (waiters st) then s1\<lparr>cancelled_total := cancelled_total s1 + 1\<rparr> else s1)"

definition drop_slot :: "TurnAdmission \<Rightarrow> nat \<Rightarrow> nat \<Rightarrow> TurnAdmission" where
  "drop_slot st started now = st\<lparr>running := running st - 1, run_ns_total := run_ns_total st + nanos (elapsed now started)\<rparr>"

lemma position_remove1:
  "position (\<lambda>w. f w = q) ws = Some i \<Longrightarrow> q \<in> set (map f ws) \<and> map f (remove_at i ws) = remove1 q (map f ws)"
proof (induction ws arbitrary: i)
  case (Cons w ws)
  then show ?case by (cases i) (auto simp: remove_at_def split: if_splits)
qed simp

lemma filter_all: "\<exists>P. xs = filter P xs"
  by (rule exI [of _ "\<lambda>_. True"]) simp

inductive turn_step :: "TurnAdmission \<times> nat \<Rightarrow> TurnAdmission \<times> nat \<Rightarrow> bool" where
  register: "unat (next_seq st) < 2 ^ 64 - 1 \<Longrightarrow> register_turn st a cfs now = (r, st') \<Longrightarrow> turn_step (st, n) (st', n)"
| admit: "admit_turn st a q now = (Inr True, st') \<Longrightarrow> turn_step (st, n) (st', Suc n)"
| no_admit: "admit_turn st a q now = (r, st') \<Longrightarrow> r \<noteq> Inr True \<Longrightarrow> turn_step (st, n) (st', n)"
| cancel: "turn_step (st, n) (drop_registration st q, n)"
| release: "turn_step (st, Suc n) (drop_slot st started now, n)"
| yield: "turn_step (st, n) (record_cooperative_yield st, n)"

definition turn_tickets :: "TurnAdmission \<Rightarrow> u64 list" where
  "turn_tickets st = map tw_seq (waiters st)"

lemma count_admission_frame [simp]:
  "waiters (count_admission c st) = waiters st" "running (count_admission c st) = running st"
  "max_concurrent (count_admission c st) = max_concurrent st" "max_waiters (count_admission c st) = max_waiters st"
  "next_seq (count_admission c st) = next_seq st" "starvation_threshold (count_admission c st) = starvation_threshold st"
  by (cases c; simp add: count_admission_def Let_def)+

lemma register_turn_cases:
  assumes "register_turn st a cfs now = (r, st')"
  shows "st' = st \<or> length (waiters st) < max_waiters st \<and> turn_tickets st' = turn_tickets st @ [next_seq st] \<and>
    next_seq st' = next_seq st + 1 \<and> running st' = running st \<and> max_concurrent st' = max_concurrent st \<and> max_waiters st' = max_waiters st"
  using assms by (auto simp: register_turn_def turn_tickets_def Let_def split: if_splits)

lemma admit_turn_cases:
  assumes "admit_turn st a q now = (r, st')"
  shows "if r = Inr True then running st < max_concurrent st \<and> q \<in> set (turn_tickets st) \<and>
      turn_tickets st' = remove1 q (turn_tickets st) \<and> running st' = Suc (running st) \<and> next_seq st' = next_seq st \<and>
      max_concurrent st' = max_concurrent st \<and> max_waiters st' = max_waiters st
    else st' = st"
proof (cases "position (\<lambda>w. tw_seq w = q) (waiters st)")
  case (Some i)
  from position_remove1 [OF this] Some assms show ?thesis
    by (auto simp: admit_turn_def turn_tickets_def Let_def split: if_splits)
qed (use assms in \<open>auto simp: admit_turn_def split: if_splits\<close>)

lemma drop_registration_tickets: "turn_tickets (drop_registration st q) = filter (\<lambda>u. u \<noteq> q) (turn_tickets st)"
  by (simp add: drop_registration_def turn_tickets_def Let_def filter_map o_def)

lemma drop_registration_frame [simp]:
  "running (drop_registration st q) = running st" "max_concurrent (drop_registration st q) = max_concurrent st"
  "max_waiters (drop_registration st q) = max_waiters st" "next_seq (drop_registration st q) = next_seq st"
  by (simp_all add: drop_registration_def Let_def)

interpretation turns: slot_pool turn_step running max_concurrent max_waiters turn_tickets next_seq
proof
  show "max_concurrent s' = max_concurrent s \<and> max_waiters s' = max_waiters s" if "turn_step (s, n) (s', n')" for s n s' n'
    using that by cases (auto simp: drop_slot_def record_cooperative_yield_def dest!: register_turn_cases admit_turn_cases split: if_splits)
next
  fix s n s' n' assume "turn_step (s, n) (s', n')"
  then show "length (turn_tickets s) < max_waiters s \<and> unat (next_seq s) < 2 ^ 64 - 1 \<and> turn_tickets s' = turn_tickets s @ [next_seq s] \<and>
        next_seq s' = next_seq s + 1 \<and> running s' = running s \<and> n' = n
      \<or> running s < max_concurrent s \<and> (\<exists>t\<in>set (turn_tickets s). turn_tickets s' = remove1 t (turn_tickets s)) \<and>
        next_seq s' = next_seq s \<and> running s' = Suc (running s) \<and> n' = Suc n
      \<or> (\<exists>P. turn_tickets s' = filter P (turn_tickets s)) \<and> next_seq s' = next_seq s \<and> running s' = running s \<and> n' = n
      \<or> n = Suc n' \<and> turn_tickets s' = turn_tickets s \<and> next_seq s' = next_seq s \<and> running s' = running s - 1"
  proof cases
    case (register a cfs now r)
    from register_turn_cases [OF register(3)] register filter_all show ?thesis by (auto simp: turn_tickets_def)
  next
    case (admit a q now)
    then show ?thesis using admit_turn_cases [OF admit(2)] by auto
  next
    case (no_admit a q now r)
    then show ?thesis using admit_turn_cases [OF no_admit(2)] filter_all by auto
  next
    case (cancel q)
    then show ?thesis using drop_registration_tickets by auto
  next
    case (release started now)
    then show ?thesis by (simp add: drop_slot_def turn_tickets_def)
  next
    case yield
    then show ?thesis using filter_all by (simp add: record_cooperative_yield_def turn_tickets_def)
  qed
qed


lemma min_seq_Some:
  assumes "min_seq (map f (filter P ws)) = Some q"
  shows "\<exists>w\<in>set ws. P w \<and> f w = q" and "w \<in> set ws \<Longrightarrow> P w \<Longrightarrow> q \<le> f w"
proof -
  from assms have ne: "filter P ws \<noteq> []" and q: "q = Min (set (map f (filter P ws)))"
    by (auto simp: min_seq_def split: if_splits)
  then have "set (map f (filter P ws)) \<noteq> {}" by (metis set_empty map_is_Nil_conv)
  with q have "q \<in> set (map f (filter P ws))" using Min_in [OF finite_set] by blast
  then show "\<exists>w\<in>set ws. P w \<and> f w = q" by auto
  show "w \<in> set ws \<Longrightarrow> P w \<Longrightarrow> q \<le> f w" using q by simp
qed

lemma min_seq_None: "min_seq (map f ws) = None \<longleftrightarrow> ws = []"
  by (simp add: min_seq_def)

text \<open>The order among contenders is used only through this: a choice is one of the candidates.\<close>

locale contender_order =
  fixes pick :: "agent_id list \<Rightarrow> agent_id option"
  assumes pick_candidate: "pick cs = Some a \<Longrightarrow> a \<in> set cs"
begin

lemma preferred_waits:
  assumes "ws \<noteq> []"
  shows "\<exists>w\<in>set ws. preferred_seq threshold age pick ws = Some (tw_seq w)"
proof (cases "min_seq (map tw_seq (filter (\<lambda>w. age w \<ge> threshold) ws))")
  case (Some q)
  with min_seq_Some(1) [OF Some] show ?thesis by (auto simp: preferred_seq_def)
next
  case None
  show ?thesis
  proof (cases "Option.bind (pick (map tw_agent ws)) (\<lambda>a. min_seq (map tw_seq (filter (\<lambda>w. tw_agent w = a) ws)))")
    case (Some q)
    then obtain a where "min_seq (map tw_seq (filter (\<lambda>w. tw_agent w = a) ws)) = Some q" by (auto simp: bind_eq_Some_conv)
    from min_seq_Some(1) [OF this] None Some show ?thesis by (auto simp: preferred_seq_def)
  next
    case inner: None
    obtain q where q: "min_seq (map tw_seq (filter (\<lambda>_. True) ws)) = Some q" using assms by (auto simp: min_seq_def)
    from min_seq_Some(1) [OF q] None inner q show ?thesis by (auto simp: preferred_seq_def)
  qed
qed

lemma preferred_of_choice:
  assumes "pick (map tw_agent ws) = Some a" and "\<forall>w\<in>set ws. age w < threshold"
  shows "\<exists>w\<in>set ws. tw_agent w = a \<and> preferred_seq threshold age pick ws = Some (tw_seq w)"
proof -
  from pick_candidate [OF assms(1)] have "filter (\<lambda>w. tw_agent w = a) ws \<noteq> []" by (auto simp: filter_empty_conv)
  then obtain q where q: "min_seq (map tw_seq (filter (\<lambda>w. tw_agent w = a) ws)) = Some q" by (auto simp: min_seq_def)
  have "filter (\<lambda>w. age w \<ge> threshold) ws = []" using assms(2) by (auto simp: filter_empty_conv)
  with min_seq_Some(1) [OF q] q assms(1) show ?thesis by (auto simp: preferred_seq_def min_seq_def [of "[]"])
qed

end

interpretation cfs_order: contender_order "pick_among s" for s
  by unfold_locales (rule pick_among_mem)

lemma preferred_overdue:
  assumes "w \<in> set ws" and "age w \<ge> threshold" and "preferred_seq threshold age pick ws = Some q"
  shows "q \<le> tw_seq w \<and> (\<exists>v\<in>set ws. tw_seq v = q \<and> age v \<ge> threshold)"
proof -
  from assms(1,2) have "filter (\<lambda>w. age w \<ge> threshold) ws \<noteq> []" by (auto simp: filter_empty_conv)
  with assms(3) have "min_seq (map tw_seq (filter (\<lambda>w. age w \<ge> threshold) ws)) = Some q"
    by (auto simp: preferred_seq_def min_seq_def)
  from min_seq_Some [OF this] assms(1,2) show ?thesis by blast
qed

text \<open>C14: Turn admission never hands out more than its capacity: after any interleaving of registrations, admissions,
  cancellations and releases the running turns are exactly the live slots and are at most the capacity, the queue is within
  its bound, and no two waiters hold the same sequence number.\<close>

theorem turn_slots_bounded:
  assumes "turn_step\<^sup>*\<^sup>* (turn_admission_new m, 0) (st, n)"
  shows "running st = n \<and> n \<le> (if m = 0 then usize_max else m) \<and> length (waiters st) \<le> max_waiters (turn_admission_new m) \<and>
    distinct (map tw_seq (waiters st))"
proof -
  note defs = turn_admission_new_def with_queue_limit_def with_queue_limit_and_starvation_threshold_def Let_def
  have cap: "max_concurrent (turn_admission_new m) = (if m = 0 then usize_max else m)"
    by (simp add: defs usize_max_def)
  have "turns.pool_ok (turn_admission_new m) 0" by (simp add: turns.pool_ok_def turn_tickets_def defs)
  from turns.runs_ok [OF assms this] cap show ?thesis by (simp add: turns.pool_ok_def turn_tickets_def)
qed

text \<open>C15: A free slot is never left idle while someone waits: some waiter's next pass admits it, whatever the scheduler
  holds and however the clocks read. When a waiter is overdue the one admitted is overdue and no younger than it; when none
  is, it is a waiter of the agent the scheduler picks among the contenders.\<close>

theorem free_slot_taken:
  assumes "running st < max_concurrent st" and "waiters st \<noteq> []"
  shows "\<exists>w\<in>set (waiters st). fst (try_turn st (tw_agent w) (tw_seq w) cfs age now) = Inr True \<and>
    (\<forall>v\<in>set (waiters st). age v \<ge> starvation_threshold st \<longrightarrow>
       tw_seq w \<le> tw_seq v \<and> (\<exists>u\<in>set (waiters st). tw_seq u = tw_seq w \<and> age u \<ge> starvation_threshold st)) \<and>
    ((\<forall>v\<in>set (waiters st). age v < starvation_threshold st) \<longrightarrow>
       (\<forall>a. pick_among cfs (map tw_agent (waiters st)) = Some a \<longrightarrow> tw_agent w = a))"
proof -
  let ?pref = "preferred_seq (starvation_threshold st) age (pick_among cfs) (waiters st)"
  obtain w where w: "w \<in> set (waiters st)" "?pref = Some (tw_seq w)"
    and choice: "(\<forall>v\<in>set (waiters st). age v < starvation_threshold st) \<longrightarrow>
       (\<forall>a. pick_among cfs (map tw_agent (waiters st)) = Some a \<longrightarrow> tw_agent w = a)"
    using cfs_order.preferred_waits [OF assms(2), of "starvation_threshold st" age cfs]
      cfs_order.preferred_of_choice [of cfs "waiters st" _ age "starvation_threshold st"] by (metis option.inject)
  have "position (\<lambda>v. tw_seq v = tw_seq w) (waiters st) \<noteq> None" using w by (auto simp: position_None_iff)
  then have "fst (try_turn st (tw_agent w) (tw_seq w) cfs age now) = Inr True"
    using assms(1) w by (auto simp: try_turn_def snapshot_waiters_def admit_turn_def Let_def)
  then show ?thesis using w choice preferred_overdue [OF _ _ w(2)] by blast
qed


text \<open>One waiter, one free slot.\<close>

definition demo_waiting :: TurnAdmission where
  "demo_waiting = snd (register_turn (turn_admission_new 1) 7 (cfs_new 10) 5)"

lemma demo_waiting_eq:
  "waiters demo_waiting = [\<lparr>tw_agent = 7, tw_class = Normal, tw_seq = 0, tw_enqueued_at = 5\<rparr>]"
  "running demo_waiting = 0" "max_concurrent demo_waiting = 1"
  by (simp_all add: demo_waiting_def register_turn_def turn_admission_new_def with_queue_limit_def Let_def
      with_queue_limit_and_starvation_threshold_def usize_max_def class_of_def cfs_new_def)

theorem turn_slots_bounded_witness: "running demo_waiting = 0 \<and> distinct (map tw_seq (waiters demo_waiting))"
proof -
  have "turn_step (turn_admission_new 1, 0) (demo_waiting, 0)"
    unfolding demo_waiting_def
    by (rule turn_step.register [where a = 7 and cfs = "cfs_new 10" and now = 5, OF _ surjective_pairing])
      (simp add: turn_admission_new_def with_queue_limit_def Let_def with_queue_limit_and_starvation_threshold_def)
  from turn_slots_bounded [OF r_into_rtranclp [where r = turn_step, OF this]] show ?thesis by simp
qed

theorem free_slot_taken_witness:
  "fst (try_turn demo_waiting 7 0 (cfs_new 10) (\<lambda>_. 1) 6) = Inr True"
  using free_slot_taken [of demo_waiting "cfs_new 10" "\<lambda>_. 1" 6] by (simp add: demo_waiting_eq)

section \<open>Provider requests\<close>

definition DEFAULT_LLM_CORES :: nat where "DEFAULT_LLM_CORES = 4"

record LlmWaiter =
  lw_nice :: int
  lw_seq :: u64
  lw_enqueued_at :: nat

record LlmScheduler =
  in_flight :: nat
  cores :: nat
  llm_max_waiters :: nat
  llm_waiters :: "LlmWaiter list"
  llm_next_seq :: u64
  llm_admitted_total :: u64
  llm_cancelled_total :: u64
  llm_wait_ns_total :: u64
  llm_run_ns_total :: u64

definition llm_with_queue_limit :: "nat \<Rightarrow> nat \<Rightarrow> LlmScheduler" where
  "llm_with_queue_limit c maxw = \<lparr>in_flight = 0, cores = max c 1, llm_max_waiters = max maxw 1, llm_waiters = [],
     llm_next_seq = 0, llm_admitted_total = 0, llm_cancelled_total = 0, llm_wait_ns_total = 0, llm_run_ns_total = 0\<rparr>"

definition llm_new :: "nat \<Rightarrow> LlmScheduler" where
  "llm_new c = (let c = max c 1 in llm_with_queue_limit c (max (min (c * 64) usize_max) 64))"

definition available :: "LlmScheduler \<Rightarrow> nat" where
  "available st = cores st - in_flight st"

text \<open>
  \<open>min_by\<close> with a comparison that reads the clock: \<open>ages i w\<close> is the number of full seconds \<open>w\<close> has
  waited when the \<open>i\<close>-th comparison is made.
\<close>

definition effective :: "LlmWaiter \<Rightarrow> nat \<Rightarrow> int" where
  "effective w secs = max (lw_nice w - int (min secs 39)) (- 20)"

definition llm_after :: "(LlmWaiter \<Rightarrow> nat) \<Rightarrow> LlmWaiter \<Rightarrow> LlmWaiter \<Rightarrow> bool" where
  "llm_after age a b \<longleftrightarrow> effective b (age b) < effective a (age a) \<or>
     effective b (age b) = effective a (age a) \<and> lw_seq b < lw_seq a"

fun llm_min_by :: "(nat \<Rightarrow> LlmWaiter \<Rightarrow> nat) \<Rightarrow> nat \<Rightarrow> LlmWaiter \<Rightarrow> LlmWaiter list \<Rightarrow> LlmWaiter" where
  "llm_min_by ages i best [] = best"
| "llm_min_by ages i best (w # ws) = llm_min_by ages (Suc i) (if llm_after (ages i) best w then w else best) ws"

definition llm_preferred :: "(nat \<Rightarrow> LlmWaiter \<Rightarrow> nat) \<Rightarrow> LlmWaiter list \<Rightarrow> LlmWaiter option" where
  "llm_preferred ages ws = (case ws of [] \<Rightarrow> None | w # ws' \<Rightarrow> Some (llm_min_by ages 0 w ws'))"

definition llm_register :: "LlmScheduler \<Rightarrow> int \<Rightarrow> nat \<Rightarrow> (SchedulerError + u64) \<times> LlmScheduler" where
  "llm_register st nice now =
     (if length (llm_waiters st) \<ge> llm_max_waiters st then (Inl (LlmQueueFull (llm_max_waiters st)), st)
      else let q = llm_next_seq st in
        (Inr q, st\<lparr>llm_next_seq := q + 1, llm_waiters := llm_waiters st @ [\<lparr>lw_nice = nice, lw_seq = q, lw_enqueued_at = now\<rparr>]\<rparr>))"

definition llm_snapshot :: "LlmScheduler \<Rightarrow> (nat \<Rightarrow> LlmWaiter \<Rightarrow> nat) \<Rightarrow> LlmWaiter option" where
  "llm_snapshot st ages = (if in_flight st < cores st then llm_preferred ages (llm_waiters st) else None)"

text \<open>The second section re-checks; the \<open>expect\<close> is guarded by the check before it.\<close>

definition llm_admit :: "LlmScheduler \<Rightarrow> u64 \<Rightarrow> nat \<Rightarrow> (unit failure + bool) \<times> LlmScheduler" where
  "llm_admit st q now =
     (let still_registered = (\<exists>w\<in>set (llm_waiters st). lw_seq w = q) in
      if in_flight st < cores st \<and> still_registered then
        (case position (\<lambda>w. lw_seq w = q) (llm_waiters st) of
           None \<Rightarrow> (Inl Panic, st)
         | Some i \<Rightarrow>
             let w = llm_waiters st ! i in
             (Inr True, st\<lparr>llm_waiters := remove_at i (llm_waiters st), in_flight := in_flight st + 1,
                llm_admitted_total := llm_admitted_total st + 1,
                llm_wait_ns_total := llm_wait_ns_total st + nanos (elapsed now (lw_enqueued_at w))\<rparr>))
      else (Inr False, st))"

definition try_llm :: "LlmScheduler \<Rightarrow> u64 \<Rightarrow> (nat \<Rightarrow> LlmWaiter \<Rightarrow> nat) \<Rightarrow> nat \<Rightarrow> (unit failure + bool) \<times> LlmScheduler" where
  "try_llm st q ages now = (case llm_snapshot st ages of
     None \<Rightarrow> (Inr False, st)
   | Some chosen \<Rightarrow> if lw_seq chosen = q then llm_admit st q now else (Inr False, st))"

definition llm_drop_registration :: "LlmScheduler \<Rightarrow> u64 \<Rightarrow> LlmScheduler" where
  "llm_drop_registration st q =
     (let ws = filter (\<lambda>w. lw_seq w \<noteq> q) (llm_waiters st);
          s1 = st\<lparr>llm_waiters := ws\<rparr> in
      if length ws \<noteq> length (llm_waiters st) then s1\<lparr>llm_cancelled_total := llm_cancelled_total s1 + 1\<rparr> else s1)"

definition llm_drop_slot :: "LlmScheduler \<Rightarrow> nat \<Rightarrow> nat \<Rightarrow> LlmScheduler" where
  "llm_drop_slot st started now =
     st\<lparr>in_flight := in_flight st - 1, llm_run_ns_total := llm_run_ns_total st + nanos (elapsed now started)\<rparr>"


inductive llm_step :: "LlmScheduler \<times> nat \<Rightarrow> LlmScheduler \<times> nat \<Rightarrow> bool" where
  register: "unat (llm_next_seq st) < 2 ^ 64 - 1 \<Longrightarrow> llm_register st nice now = (r, st') \<Longrightarrow> llm_step (st, n) (st', n)"
| admit: "llm_admit st q now = (Inr True, st') \<Longrightarrow> llm_step (st, n) (st', Suc n)"
| no_admit: "llm_admit st q now = (r, st') \<Longrightarrow> r \<noteq> Inr True \<Longrightarrow> llm_step (st, n) (st', n)"
| cancel: "llm_step (st, n) (llm_drop_registration st q, n)"
| release: "llm_step (st, Suc n) (llm_drop_slot st started now, n)"

definition llm_tickets :: "LlmScheduler \<Rightarrow> u64 list" where
  "llm_tickets st = map lw_seq (llm_waiters st)"

lemma llm_register_cases:
  assumes "llm_register st nice now = (r, st')"
  shows "st' = st \<or> length (llm_waiters st) < llm_max_waiters st \<and> llm_tickets st' = llm_tickets st @ [llm_next_seq st] \<and>
    llm_next_seq st' = llm_next_seq st + 1 \<and> in_flight st' = in_flight st \<and> cores st' = cores st \<and> llm_max_waiters st' = llm_max_waiters st"
  using assms by (auto simp: llm_register_def llm_tickets_def Let_def split: if_splits)

lemma llm_admit_cases:
  assumes "llm_admit st q now = (r, st')"
  shows "if r = Inr True then in_flight st < cores st \<and> q \<in> set (llm_tickets st) \<and>
      llm_tickets st' = remove1 q (llm_tickets st) \<and> in_flight st' = Suc (in_flight st) \<and> llm_next_seq st' = llm_next_seq st \<and>
      cores st' = cores st \<and> llm_max_waiters st' = llm_max_waiters st
    else st' = st"
proof (cases "position (\<lambda>w. lw_seq w = q) (llm_waiters st)")
  case (Some i)
  from position_remove1 [OF this] Some assms show ?thesis
    by (auto simp: llm_admit_def llm_tickets_def Let_def split: if_splits)
qed (use assms in \<open>auto simp: llm_admit_def Let_def split: if_splits\<close>)

lemma llm_drop_registration_frame [simp]:
  "in_flight (llm_drop_registration st q) = in_flight st" "cores (llm_drop_registration st q) = cores st"
  "llm_max_waiters (llm_drop_registration st q) = llm_max_waiters st" "llm_next_seq (llm_drop_registration st q) = llm_next_seq st"
  "llm_tickets (llm_drop_registration st q) = filter (\<lambda>u. u \<noteq> q) (llm_tickets st)"
  by (simp_all add: llm_drop_registration_def llm_tickets_def Let_def filter_map o_def)

interpretation llm: slot_pool llm_step in_flight cores llm_max_waiters llm_tickets llm_next_seq
proof
  show "cores s' = cores s \<and> llm_max_waiters s' = llm_max_waiters s" if "llm_step (s, n) (s', n')" for s n s' n'
    using that by cases (auto simp: llm_drop_slot_def dest!: llm_register_cases llm_admit_cases split: if_splits)
next
  fix s n s' n' assume "llm_step (s, n) (s', n')"
  then show "length (llm_tickets s) < llm_max_waiters s \<and> unat (llm_next_seq s) < 2 ^ 64 - 1 \<and> llm_tickets s' = llm_tickets s @ [llm_next_seq s] \<and>
        llm_next_seq s' = llm_next_seq s + 1 \<and> in_flight s' = in_flight s \<and> n' = n
      \<or> in_flight s < cores s \<and> (\<exists>t\<in>set (llm_tickets s). llm_tickets s' = remove1 t (llm_tickets s)) \<and>
        llm_next_seq s' = llm_next_seq s \<and> in_flight s' = Suc (in_flight s) \<and> n' = Suc n
      \<or> (\<exists>P. llm_tickets s' = filter P (llm_tickets s)) \<and> llm_next_seq s' = llm_next_seq s \<and> in_flight s' = in_flight s \<and> n' = n
      \<or> n = Suc n' \<and> llm_tickets s' = llm_tickets s \<and> llm_next_seq s' = llm_next_seq s \<and> in_flight s' = in_flight s - 1"
  proof cases
    case (register nice now r)
    from llm_register_cases [OF register(3)] register filter_all show ?thesis by (auto simp: llm_tickets_def)
  next
    case (admit q now)
    then show ?thesis using llm_admit_cases [OF admit(2)] by auto
  next
    case (no_admit q now r)
    then show ?thesis using llm_admit_cases [OF no_admit(2)] filter_all by auto
  next
    case (cancel q)
    then show ?thesis by auto
  next
    case (release started now)
    then show ?thesis by (simp add: llm_drop_slot_def llm_tickets_def)
  qed
qed

text \<open>The clock does not run backwards during the search.\<close>

definition clock_runs :: "(nat \<Rightarrow> LlmWaiter \<Rightarrow> nat) \<Rightarrow> bool" where
  "clock_runs ages \<longleftrightarrow> (\<forall>i v. ages i v \<le> ages (Suc i) v)"

text \<open>A waiter at the end of its aging loses a comparison only to an older request that has aged as far.\<close>

definition aged :: "(nat \<Rightarrow> LlmWaiter \<Rightarrow> nat) \<Rightarrow> nat \<Rightarrow> LlmWaiter \<Rightarrow> bool" where
  "aged ages i w \<longleftrightarrow> effective w (ages i w) = - 20"

lemma effective_floor: "- 20 \<le> effective w n"
  by (simp add: effective_def)

lemma aged_Suc:
  assumes "aged ages i w" and "clock_runs ages"
  shows "aged ages (Suc i) w"
proof -
  have "ages i w \<le> ages (Suc i) w" using assms(2) by (simp add: clock_runs_def)
  with assms(1) show ?thesis by (auto simp: aged_def effective_def)
qed

lemma llm_min_by_aged:
  assumes "clock_runs ages" and "aged ages i b"
  shows "lw_seq (llm_min_by ages i b ws) \<le> lw_seq b"
  using assms(2)
proof (induction ws arbitrary: i b)
  case (Cons w ws)
  let ?b = "if llm_after (ages i) b w then w else b"
  have "aged ages i ?b \<and> lw_seq ?b \<le> lw_seq b"
    using Cons.prems effective_floor [of w "ages i w"] by (auto simp: llm_after_def aged_def)
  moreover from this have "aged ages (Suc i) ?b" using aged_Suc assms(1) by blast
  ultimately have "lw_seq (llm_min_by ages (Suc i) ?b ws) \<le> lw_seq b" using Cons.IH [of "Suc i" ?b] by (meson order_trans)
  then show ?case by simp
qed simp

lemma llm_min_by_member:
  assumes "clock_runs ages" and "w \<in> set ws" and "\<And>i. aged ages i w"
  shows "lw_seq (llm_min_by ages i b ws) \<le> lw_seq w"
  using assms(2)
proof (induction ws arbitrary: i b)
  case (Cons v ws)
  show ?case
  proof (cases "v = w")
    case True
    let ?b = "if llm_after (ages i) b w then w else b"
    have "aged ages i ?b \<and> lw_seq ?b \<le> lw_seq w"
      using assms(3) [of i] effective_floor [of b "ages i b"] by (auto simp: llm_after_def aged_def)
    moreover from this have "aged ages (Suc i) ?b" using aged_Suc assms(1) by blast
    ultimately have "lw_seq (llm_min_by ages (Suc i) ?b ws) \<le> lw_seq w"
      using llm_min_by_aged [OF assms(1), of "Suc i" ?b ws] by (meson order_trans)
    then show ?thesis using True by simp
  qed (use Cons in auto)
qed simp

text \<open>C16: Aging bounds starvation of provider requests: a request of any priority in range that has waited thirty-nine
  seconds is only passed over by older requests, so newcomers cannot overtake it, whenever within the search the clock is
  read; and the pool never has more requests in flight than cores.\<close>

theorem llm_requests_age:
  assumes "llm_step\<^sup>*\<^sup>* (llm_new c, 0) (st, n)" and "clock_runs ages"
    and "w \<in> set (llm_waiters st)" and "lw_nice w \<le> 19" and "\<And>i. 39 \<le> ages i w" and "llm_preferred ages (llm_waiters st) = Some v"
  shows "lw_seq v \<le> lw_seq w \<and> in_flight st = n \<and> n \<le> max c 1"
proof -
  have "llm.pool_ok (llm_new c) 0" by (simp add: llm.pool_ok_def llm_tickets_def llm_new_def llm_with_queue_limit_def Let_def)
  from llm.runs_ok [OF assms(1) this] have pool: "in_flight st = n \<and> n \<le> max c 1"
    by (simp add: llm.pool_ok_def llm_new_def llm_with_queue_limit_def Let_def)
  have aged: "aged ages i w" for i using assms(4) assms(5) [of i] by (simp add: aged_def effective_def)
  obtain b ws where ws: "llm_waiters st = b # ws" using assms(3) by (cases "llm_waiters st") auto
  with assms(6) have "v = llm_min_by ages 0 b ws" by (simp add: llm_preferred_def)
  then have "lw_seq v \<le> lw_seq w"
    using assms(3) ws llm_min_by_aged [OF assms(2) aged, of 0 ws] llm_min_by_member [OF assms(2) _ aged, of ws 0 b] by auto
  with pool show ?thesis by blast
qed


theorem llm_requests_age_witness:
  "llm_preferred (\<lambda>_ _. 39) [\<lparr>lw_nice = 19, lw_seq = 0, lw_enqueued_at = 5\<rparr>] = Some \<lparr>lw_nice = 19, lw_seq = 0, lw_enqueued_at = 5\<rparr> \<and>
   in_flight (snd (llm_register (llm_new 1) 19 5)) = 0"
proof -
  let ?st = "snd (llm_register (llm_new 1) 19 5)"
  have "llm_step (llm_new 1, 0) (?st, 0)"
    by (rule llm_step.register [where nice = 19 and now = 5, OF _ surjective_pairing])
      (simp add: llm_new_def llm_with_queue_limit_def Let_def)
  then have run: "llm_step\<^sup>*\<^sup>* (llm_new 1, 0) (?st, 0)" by (rule r_into_rtranclp)
  have ws: "llm_waiters ?st = [\<lparr>lw_nice = 19, lw_seq = 0, lw_enqueued_at = 5\<rparr>]"
    by (simp add: llm_register_def llm_new_def llm_with_queue_limit_def Let_def usize_max_def)
  have pref: "llm_preferred (\<lambda>_ _. 39) [\<lparr>lw_nice = 19, lw_seq = 0, lw_enqueued_at = 5\<rparr>] = Some \<lparr>lw_nice = 19, lw_seq = 0, lw_enqueued_at = 5\<rparr>"
    by (simp add: llm_preferred_def)
  from llm_requests_age [OF run, of "\<lambda>_ _. 39"] ws pref show ?thesis by (auto simp: clock_runs_def)
qed

end
