(* ===== verification/Ipc.thy ===== *)
theory Ipc
  imports Syscall_Gate
begin

text \<open>
  Communication between agents (\<open>crates/kernel/src/ipc.rs\<close>): mailboxes, topics and delegated tasks.
  A mailbox is the bounded channel whose two ends the source keeps in two maps that are always
  written together; a full channel refuses. Nobody listens on a topic's broadcast channel, so a
  topic is its name. Clock readings, fresh task identifiers, the serializer and the printing of
  identifiers are arguments, and so is the answer of the installed visibility check: it is
  another component's, and the locale \<open>visibility\<close> states what is used of it.

  The lemmas show that queues stay within their bounds, that a mailbox delivers what it accepted
  exactly once and in order, and that agents the gate keeps apart cannot reach each other.
\<close>

section \<open>Data\<close>

definition MAX_IPC_PAYLOAD_BYTES :: nat where "MAX_IPC_PAYLOAD_BYTES = 64 * 1024"
definition MAX_DEAD_LETTERS :: nat where "MAX_DEAD_LETTERS = 256"
definition MAILBOX_CAPACITY :: nat where "MAILBOX_CAPACITY = 256"

datatype IpcError = DeliveryFailed string | AgentNotFound uuid | ChannelClosed | PermissionDenied string

record IpcMessage =
  msg_from :: uuid
  msg_to :: uuid
  msg_payload :: json
  msg_timestamp :: int

datatype DelegationStatus = Pending | InProgress | Completed | FailedTask string

record DelegatedTask =
  task_id :: uuid
  task_from :: uuid
  task_to :: uuid
  task_description :: string
  task_status :: DelegationStatus

record IpcManager =
  mailboxes :: "(uuid \<times> IpcMessage list) list"
  topics :: "string list"
  subscriptions :: "(uuid \<times> string list) list"
  delegations :: "(uuid \<times> DelegatedTask) list"
  dead_letters :: "IpcMessage list"
  allowed_pairs :: "(uuid \<times> uuid) list option"
  namespace_check :: bool

type_synonym visibility_answer = "uuid \<Rightarrow> uuid \<Rightarrow> bool"

section \<open>Administration\<close>

definition ipc_new :: IpcManager where
  "ipc_new = \<lparr>mailboxes = [], topics = [], subscriptions = [], delegations = [], dead_letters = [],
     allowed_pairs = None, namespace_check = False\<rparr>"

definition set_namespace_visibility :: "IpcManager \<Rightarrow> IpcManager" where
  "set_namespace_visibility m = m\<lparr>namespace_check := True\<rparr>"

definition namespace_allows :: "visibility_answer \<Rightarrow> IpcManager \<Rightarrow> uuid \<Rightarrow> uuid \<Rightarrow> bool" where
  "namespace_allows vis m from to = (if namespace_check m then vis from to else True)"

definition ipc_register_agent :: "IpcManager \<Rightarrow> uuid \<Rightarrow> IpcManager" where
  "ipc_register_agent m a = m\<lparr>mailboxes := AList.update a [] (mailboxes m)\<rparr>"

definition ipc_unregister_agent :: "IpcManager \<Rightarrow> uuid \<Rightarrow> IpcManager" where
  "ipc_unregister_agent m a =
     m\<lparr>mailboxes := AList.delete a (mailboxes m), subscriptions := AList.delete a (subscriptions m),
       delegations := filter (\<lambda>(_, t). task_from t \<noteq> a \<and> task_to t \<noteq> a) (delegations m),
       allowed_pairs := map_option (filter (\<lambda>(from, to). from \<noteq> a \<and> to \<noteq> a)) (allowed_pairs m),
       dead_letters := filter (\<lambda>msg. msg_from msg \<noteq> a \<and> msg_to msg \<noteq> a) (dead_letters m)\<rparr>"

definition is_registered :: "IpcManager \<Rightarrow> uuid \<Rightarrow> bool" where
  "is_registered m a \<longleftrightarrow> map_of (mailboxes m) a \<noteq> None"

definition mailbox_len :: "IpcManager \<Rightarrow> uuid \<Rightarrow> IpcError + nat" where
  "mailbox_len m a = bind_res (ok_or (map_of (mailboxes m) a) (AgentNotFound a)) (\<lambda>q. Inr (length q))"

definition enable_permissions :: "IpcManager \<Rightarrow> IpcManager" where
  "enable_permissions m = m\<lparr>allowed_pairs := Some []\<rparr>"

definition allow_communication :: "IpcManager \<Rightarrow> uuid \<Rightarrow> uuid \<Rightarrow> IpcManager" where
  "allow_communication m from to =
     m\<lparr>allowed_pairs := map_option (\<lambda>ps. if (from, to) \<in> set ps then ps else ps @ [(from, to)]) (allowed_pairs m)\<rparr>"

definition check_permission :: "(uuid \<Rightarrow> string) \<Rightarrow> IpcManager \<Rightarrow> uuid \<Rightarrow> uuid \<Rightarrow> IpcError + unit" where
  "check_permission show_uuid m from to = (case allowed_pairs m of
     None \<Rightarrow> Inr ()
   | Some ps \<Rightarrow> if (from, to) \<in> set ps then Inr ()
       else Inl (PermissionDenied (''Agent '' @ show_uuid from @ '' not allowed to message '' @ show_uuid to)))"

section \<open>Messages\<close>

definition check_payload_bound :: "serializer \<Rightarrow> json \<Rightarrow> IpcError + unit" where
  "check_payload_bound to_vec payload = (case to_vec payload of
     Inl _ \<Rightarrow> Inl (DeliveryFailed ''invalid IPC payload'')
   | Inr bytes \<Rightarrow> if length bytes > MAX_IPC_PAYLOAD_BYTES then Inl (DeliveryFailed ''IPC payload exceeds 64 KiB bound'')
       else Inr ())"

text \<open>\<open>try_send\<close> on a mailbox.\<close>

definition try_send :: "IpcMessage list \<Rightarrow> IpcMessage \<Rightarrow> IpcMessage list option" where
  "try_send q msg = (if length q < MAILBOX_CAPACITY then Some (q @ [msg]) else None)"

definition add_dead_letter :: "IpcMessage \<Rightarrow> IpcMessage list \<Rightarrow> IpcMessage list" where
  "add_dead_letter msg letters = (if length letters = MAX_DEAD_LETTERS then remove_at 0 letters else letters) @ [msg]"

definition send ::
    "serializer \<Rightarrow> (uuid \<Rightarrow> string) \<Rightarrow> visibility_answer \<Rightarrow> IpcManager \<Rightarrow> uuid \<Rightarrow> uuid \<Rightarrow> json \<Rightarrow> int
      \<Rightarrow> (IpcError + unit) \<times> IpcManager" where
  "send to_vec show_uuid vis m from to payload now =
     (if \<not> namespace_allows vis m from to then (Inl (AgentNotFound to), m)
      else case bind_res (check_permission show_uuid m from to) (\<lambda>_. check_payload_bound to_vec payload) of
        Inl e \<Rightarrow> (Inl e, m)
      | Inr _ \<Rightarrow>
          let msg = \<lparr>msg_from = from, msg_to = to, msg_payload = payload, msg_timestamp = now\<rparr> in
          (case map_of (mailboxes m) to of
             None \<Rightarrow> (Inl (AgentNotFound to), m)
           | Some q \<Rightarrow> (case try_send q msg of
               Some q' \<Rightarrow> (Inr (), m\<lparr>mailboxes := AList.update to q' (mailboxes m)\<rparr>)
             | None \<Rightarrow> (Inl (DeliveryFailed ''Mailbox full''), m\<lparr>dead_letters := add_dead_letter msg (dead_letters m)\<rparr>))))"

definition receive :: "IpcManager \<Rightarrow> uuid \<Rightarrow> (IpcError + IpcMessage) \<times> IpcManager" where
  "receive m a = (case map_of (mailboxes m) a of
     None \<Rightarrow> (Inl (AgentNotFound a), m)
   | Some [] \<Rightarrow> (Inl ChannelClosed, m)
   | Some (msg # q) \<Rightarrow> (Inr msg, m\<lparr>mailboxes := AList.update a q (mailboxes m)\<rparr>))"

section \<open>Topics\<close>

definition subscribe :: "IpcManager \<Rightarrow> uuid \<Rightarrow> string \<Rightarrow> IpcManager" where
  "subscribe m a topic =
     m\<lparr>topics := (if topic \<in> set (topics m) then topics m else topics m @ [topic]),
       subscriptions := AList.update a ((case map_of (subscriptions m) a of Some ts \<Rightarrow> ts | None \<Rightarrow> []) @ [topic]) (subscriptions m)\<rparr>"

definition unsubscribe :: "IpcManager \<Rightarrow> uuid \<Rightarrow> string \<Rightarrow> IpcManager" where
  "unsubscribe m a topic = m\<lparr>subscriptions := AList.map_entry a (filter (\<lambda>t. t \<noteq> topic)) (subscriptions m)\<rparr>"

fun deliver_topic ::
    "visibility_answer \<Rightarrow> IpcMessage \<Rightarrow> string \<Rightarrow> (uuid \<times> string list) list \<Rightarrow> nat \<Rightarrow> IpcManager \<Rightarrow> nat \<times> IpcManager" where
  "deliver_topic vis msg topic [] delivered m = (delivered, m)"
| "deliver_topic vis msg topic ((a, ts) # subs) delivered m =
     (if \<not> namespace_allows vis m (msg_from msg) a then deliver_topic vis msg topic subs delivered m
      else if topic \<in> set ts then
        (case map_of (mailboxes m) a of
           None \<Rightarrow> deliver_topic vis msg topic subs delivered m
         | Some q \<Rightarrow> (case try_send q (msg\<lparr>msg_to := a\<rparr>) of
             Some q' \<Rightarrow> deliver_topic vis msg topic subs (delivered + 1) (m\<lparr>mailboxes := AList.update a q' (mailboxes m)\<rparr>)
           | None \<Rightarrow> deliver_topic vis msg topic subs delivered m))
      else deliver_topic vis msg topic subs delivered m)"

definition publish ::
    "serializer \<Rightarrow> visibility_answer \<Rightarrow> IpcManager \<Rightarrow> uuid \<Rightarrow> string \<Rightarrow> json \<Rightarrow> int \<Rightarrow> (IpcError + nat) \<times> IpcManager" where
  "publish to_vec vis m from topic payload now =
     (case check_payload_bound to_vec payload of
        Inl e \<Rightarrow> (Inl e, m)
      | Inr _ \<Rightarrow>
          if topic \<notin> set (topics m) then (Inl (DeliveryFailed (''Topic '' @ [CHR 0x27] @ topic @ [CHR 0x27] @ '' not found'')), m)
          else
            let msg = \<lparr>msg_from = from, msg_to = 0, msg_payload = payload, msg_timestamp = now\<rparr>;
                (delivered, m') = deliver_topic vis msg topic (subscriptions m) 0 m in
            (Inr delivered, m'))"

section \<open>Delegation\<close>

definition delegate ::
    "serializer \<Rightarrow> (uuid \<Rightarrow> string) \<Rightarrow> visibility_answer \<Rightarrow> IpcManager \<Rightarrow> uuid \<Rightarrow> uuid \<Rightarrow> string \<Rightarrow> uuid \<Rightarrow> int
      \<Rightarrow> (IpcError + uuid) \<times> IpcManager" where
  "delegate to_vec show_uuid vis m from to description fresh now =
     (case check_permission show_uuid m from to of
        Inl e \<Rightarrow> (Inl e, m)
      | Inr _ \<Rightarrow>
          let payload = JObject [(''description'', JString description), (''task_id'', JString (show_uuid fresh)),
                (''type'', JString ''delegation'')] in
          bind_st (send to_vec show_uuid vis m from to payload now) (\<lambda>_ m.
            (Inr fresh, m\<lparr>delegations := AList.update fresh \<lparr>task_id = fresh, task_from = from, task_to = to,
               task_description = description, task_status = Pending\<rparr> (delegations m)\<rparr>)))"

definition complete_delegation :: "(uuid \<Rightarrow> string) \<Rightarrow> IpcManager \<Rightarrow> uuid \<Rightarrow> uuid \<Rightarrow> (IpcError + unit) \<times> IpcManager" where
  "complete_delegation show_uuid m caller tid = (case map_of (delegations m) tid of
     None \<Rightarrow> (Inl (DeliveryFailed ''Delegation not found''), m)
   | Some t \<Rightarrow>
       if caller \<noteq> task_to t
       then (Inl (PermissionDenied (''agent '' @ show_uuid caller @ '' is not the assignee of delegation '' @ show_uuid tid)), m)
       else (Inr (), m\<lparr>delegations := AList.map_entry tid (\<lambda>t. t\<lparr>task_status := Completed\<rparr>) (delegations m)\<rparr>))"

definition get_delegation_status :: "IpcManager \<Rightarrow> uuid \<Rightarrow> uuid \<Rightarrow> DelegationStatus option" where
  "get_delegation_status m caller tid = Option.bind (map_of (delegations m) tid)
     (\<lambda>t. if caller \<noteq> task_from t \<and> caller \<noteq> task_to t then None else Some (task_status t))"

section \<open>Runs\<close>

text \<open>
  A run is a sequence of whole calls, each with the answers the visibility check gives at that
  moment. The effect of a call on a mailbox is one locked operation of its channel.
\<close>

datatype ipc_op =
    OpRegister uuid | OpUnregister uuid | OpEnable | OpAllow uuid uuid | OpInstall
  | OpSend uuid uuid json int | OpReceive uuid
  | OpSubscribe uuid string | OpUnsubscribe uuid string | OpPublish uuid string json int
  | OpDelegate uuid uuid string uuid int | OpComplete uuid uuid

datatype ipc_result = Done | Delivered "IpcError + unit" | Got "IpcError + IpcMessage" | Reached "IpcError + nat" | Task "IpcError + uuid"

fun ipc_apply :: "serializer \<Rightarrow> (uuid \<Rightarrow> string) \<Rightarrow> visibility_answer \<Rightarrow> ipc_op \<Rightarrow> IpcManager \<Rightarrow> ipc_result \<times> IpcManager" where
  "ipc_apply tv su vis (OpRegister a) m = (Done, ipc_register_agent m a)"
| "ipc_apply tv su vis (OpUnregister a) m = (Done, ipc_unregister_agent m a)"
| "ipc_apply tv su vis OpEnable m = (Done, enable_permissions m)"
| "ipc_apply tv su vis (OpAllow a b) m = (Done, allow_communication m a b)"
| "ipc_apply tv su vis OpInstall m = (Done, set_namespace_visibility m)"
| "ipc_apply tv su vis (OpSend a b p t) m = apfst Delivered (send tv su vis m a b p t)"
| "ipc_apply tv su vis (OpReceive a) m = apfst Got (receive m a)"
| "ipc_apply tv su vis (OpSubscribe a x) m = (Done, subscribe m a x)"
| "ipc_apply tv su vis (OpUnsubscribe a x) m = (Done, unsubscribe m a x)"
| "ipc_apply tv su vis (OpPublish a x p t) m = apfst Reached (publish tv vis m a x p t)"
| "ipc_apply tv su vis (OpDelegate a b d f t) m = apfst Task (delegate tv su vis m a b d f t)"
| "ipc_apply tv su vis (OpComplete a i) m = apfst Delivered (complete_delegation su m a i)"

definition queue :: "IpcManager \<Rightarrow> uuid \<Rightarrow> IpcMessage list" where
  "queue m a = (case map_of (mailboxes m) a of Some q \<Rightarrow> q | None \<Rightarrow> [])"

text \<open>Whether a published message gets to a subscriber.\<close>

definition reaches :: "visibility_answer \<Rightarrow> IpcManager \<Rightarrow> uuid \<Rightarrow> string \<Rightarrow> uuid \<Rightarrow> bool" where
  "reaches vis m from topic a \<longleftrightarrow> namespace_allows vis m from a \<and>
     (case map_of (subscriptions m) a of None \<Rightarrow> False | Some ts \<Rightarrow> topic \<in> set ts) \<and>
     (case map_of (mailboxes m) a of None \<Rightarrow> False | Some q \<Rightarrow> length q < MAILBOX_CAPACITY)"

text \<open>The messages for an agent that a call reports as accepted, and those it hands out.\<close>

fun sent :: "visibility_answer \<Rightarrow> (uuid \<Rightarrow> string) \<Rightarrow> IpcManager \<Rightarrow> uuid \<Rightarrow> ipc_op \<Rightarrow> ipc_result \<Rightarrow> IpcMessage list" where
  "sent vis su m a (OpSend x y p t) (Delivered (Inr _)) =
     (if y = a then [\<lparr>msg_from = x, msg_to = a, msg_payload = p, msg_timestamp = t\<rparr>] else [])"
| "sent vis su m a (OpPublish x topic p t) (Reached (Inr _)) =
     (if reaches vis m x topic a then [\<lparr>msg_from = x, msg_to = a, msg_payload = p, msg_timestamp = t\<rparr>] else [])"
| "sent vis su m a (OpDelegate x y d f t) (Task (Inr _)) =
     (if y = a then [\<lparr>msg_from = x, msg_to = a, msg_payload = JObject [(''description'', JString d),
        (''task_id'', JString (su f)), (''type'', JString ''delegation'')], msg_timestamp = t\<rparr>] else [])"
| "sent vis su m a _ _ = []"

fun taken :: "uuid \<Rightarrow> ipc_op \<Rightarrow> ipc_result \<Rightarrow> IpcMessage list" where
  "taken a (OpReceive x) (Got (Inr msg)) = (if x = a then [msg] else [])"
| "taken a _ _ = []"

fun ipc_run ::
    "serializer \<Rightarrow> (uuid \<Rightarrow> string) \<Rightarrow> uuid \<Rightarrow> (visibility_answer \<times> ipc_op) list \<Rightarrow> IpcManager
      \<Rightarrow> IpcMessage list \<times> IpcMessage list \<times> IpcManager" where
  "ipc_run tv su a [] m = ([], [], m)"
| "ipc_run tv su a ((vis, op) # ops) m =
     (let (r, m1) = ipc_apply tv su vis op m; (s, t, m2) = ipc_run tv su a ops m1 in
      (sent vis su m a op r @ s, taken a op r @ t, m2))"

text \<open>Calls that make or drop the mailbox of an agent.\<close>

fun remakes :: "uuid \<Rightarrow> ipc_op \<Rightarrow> bool" where
  "remakes a (OpRegister x) = (x = a)"
| "remakes a (OpUnregister x) = (x = a)"
| "remakes a _ = False"

section \<open>What the calls do to a mailbox\<close>

lemma map_of_update_if: "map_of (AList.update k v m) k' = (if k' = k then Some v else map_of m k')"
  by (simp add: AList.update_conv')

lemma queue_update: "queue (m\<lparr>mailboxes := AList.update k q (mailboxes m)\<rparr>) a = (if a = k then q else queue m a)"
  by (simp add: queue_def map_of_update_if)

lemma queue_frame [simp]:
  "queue (m\<lparr>subscriptions := x1\<rparr>) a = queue m a" "queue (m\<lparr>delegations := x2\<rparr>) a = queue m a"
  "queue (m\<lparr>dead_letters := x3\<rparr>) a = queue m a" "queue (m\<lparr>allowed_pairs := x4\<rparr>) a = queue m a"
  "queue (m\<lparr>namespace_check := x5\<rparr>) a = queue m a" "queue (m\<lparr>topics := x6\<rparr>) a = queue m a"
  by (simp_all add: queue_def)

lemma namespace_allows_frame [simp]: "namespace_allows vis (m\<lparr>mailboxes := x\<rparr>) = namespace_allows vis m"
  by (simp add: namespace_allows_def fun_eq_iff)

text \<open>A send has four outcomes: refused without a trace, refused into the dead letters, or accepted.\<close>

lemma send_cases:
  obtains (refused) e where "send tv su vis m x y p t = (Inl e, m)"
  | (dead) msg where "msg = \<lparr>msg_from = x, msg_to = y, msg_payload = p, msg_timestamp = t\<rparr>" "namespace_allows vis m x y"
      "check_payload_bound tv p = Inr ()"
      "send tv su vis m x y p t = (Inl (DeliveryFailed ''Mailbox full''), m\<lparr>dead_letters := add_dead_letter msg (dead_letters m)\<rparr>)"
  | (accepted) q msg where "msg = \<lparr>msg_from = x, msg_to = y, msg_payload = p, msg_timestamp = t\<rparr>" "namespace_allows vis m x y"
      "check_payload_bound tv p = Inr ()" "map_of (mailboxes m) y = Some q" "length q < MAILBOX_CAPACITY"
      "send tv su vis m x y p t = (Inr (), m\<lparr>mailboxes := AList.update y (q @ [msg]) (mailboxes m)\<rparr>)"
proof -
  note s = send_def try_send_def Let_def
  consider "\<not> namespace_allows vis m x y" | e where "namespace_allows vis m x y" "check_permission su m x y = Inl e"
    | e where "namespace_allows vis m x y" "check_permission su m x y = Inr ()" "check_payload_bound tv p = Inl e"
    | "namespace_allows vis m x y" "check_permission su m x y = Inr ()" "check_payload_bound tv p = Inr ()" "map_of (mailboxes m) y = None"
    | q where "namespace_allows vis m x y" "check_permission su m x y = Inr ()" "check_payload_bound tv p = Inr ()"
        "map_of (mailboxes m) y = Some q" "length q < MAILBOX_CAPACITY"
    | q where "namespace_allows vis m x y" "check_permission su m x y = Inr ()" "check_payload_bound tv p = Inr ()"
        "map_of (mailboxes m) y = Some q" "\<not> length q < MAILBOX_CAPACITY"
    by (metis (full_types) not_None_eq old.sum.exhaust old.unit.exhaust)
  then show thesis
  proof cases
    case (5 q)
    then show ?thesis using accepted [OF refl 5(1,3,4,5)] by (simp add: s)
  next
    case (6 q)
    then show ?thesis using dead [OF refl 6(1,3)] by (simp add: s)
  qed (rule refused, simp add: s)+
qed

text \<open>Publishing appends to exactly the mailboxes it reaches and counts them.\<close>

definition has_room :: "IpcManager \<Rightarrow> uuid \<Rightarrow> bool" where
  "has_room m a \<longleftrightarrow> (case map_of (mailboxes m) a of None \<Rightarrow> False | Some q \<Rightarrow> length q < MAILBOX_CAPACITY)"

definition hit :: "visibility_answer \<Rightarrow> IpcManager \<Rightarrow> uuid \<Rightarrow> string \<Rightarrow> uuid \<times> string list \<Rightarrow> bool" where
  "hit vis m from topic e \<longleftrightarrow> namespace_allows vis m from (fst e) \<and> topic \<in> set (snd e) \<and> has_room m (fst e)"

lemma deliver_topic_Cons:
  "deliver_topic vis msg topic (e # subs) n m =
     (if hit vis m (msg_from msg) topic e
      then deliver_topic vis msg topic subs (n + 1)
        (m\<lparr>mailboxes := AList.update (fst e) (queue m (fst e) @ [msg\<lparr>msg_to := fst e\<rparr>]) (mailboxes m)\<rparr>)
      else deliver_topic vis msg topic subs n m)"
  by (cases e; cases "map_of (mailboxes m) (fst e)") (auto simp: hit_def has_room_def try_send_def queue_def)

lemma hit_other:
  "fst e \<noteq> k \<Longrightarrow> hit vis (m\<lparr>mailboxes := AList.update k q (mailboxes m)\<rparr>) from topic e = hit vis m from topic e"
  by (simp add: hit_def has_room_def map_of_update_if)

lemma deliver_topic_spec:
  assumes "distinct (map fst subs)" and "distinct (map fst (mailboxes m))"
  shows "\<exists>mb. deliver_topic vis msg topic subs n m =
      (n + length (filter (hit vis m (msg_from msg) topic) subs), m\<lparr>mailboxes := mb\<rparr>) \<and> distinct (map fst mb) \<and>
    (\<forall>a. map_of mb a = (if \<exists>e\<in>set subs. fst e = a \<and> hit vis m (msg_from msg) topic e
       then Some (queue m a @ [msg\<lparr>msg_to := a\<rparr>]) else map_of (mailboxes m) a))"
  using assms
proof (induction subs arbitrary: n m)
  case (Cons e subs)
  show ?case
  proof (cases "hit vis m (msg_from msg) topic e")
    case True
    let ?m = "m\<lparr>mailboxes := AList.update (fst e) (queue m (fst e) @ [msg\<lparr>msg_to := fst e\<rparr>]) (mailboxes m)\<rparr>"
    have notin: "\<And>x. x \<in> set subs \<Longrightarrow> fst x \<noteq> fst e"
      using Cons.prems(1) by (metis distinct.simps(2) image_eqI list.set_map list.simps(9))
    have same: "hit vis ?m (msg_from msg) topic x = hit vis m (msg_from msg) topic x" if "x \<in> set subs" for x
      using that notin by (intro hit_other) blast
    then have f: "filter (hit vis ?m (msg_from msg) topic) subs = filter (hit vis m (msg_from msg) topic) subs"
      by (rule filter_cong [OF refl])
    have ex: "(\<exists>x\<in>set subs. fst x = a \<and> hit vis ?m (msg_from msg) topic x) = (\<exists>x\<in>set subs. fst x = a \<and> hit vis m (msg_from msg) topic x)" for a
      using same by blast
    have q: "queue ?m a = queue m a" if "a \<noteq> fst e" for a using that by (simp add: queue_update)
    have "distinct (map fst (mailboxes ?m))" using Cons.prems(2) by (simp add: distinct_update)
    from Cons.IH [OF _ this, of "n + 1"] Cons.prems(1) obtain mb where
      mb: "deliver_topic vis msg topic subs (n + 1) ?m = (n + 1 + length (filter (hit vis m (msg_from msg) topic) subs), m\<lparr>mailboxes := mb\<rparr>)"
        "distinct (map fst mb)"
      and look: "\<And>a. map_of mb a = (if \<exists>x\<in>set subs. fst x = a \<and> hit vis m (msg_from msg) topic x
         then Some (queue ?m a @ [msg\<lparr>msg_to := a\<rparr>]) else map_of (mailboxes ?m) a)"
      unfolding f ex by auto
    have "map_of mb a = (if \<exists>x\<in>set (e # subs). fst x = a \<and> hit vis m (msg_from msg) topic x
       then Some (queue m a @ [msg\<lparr>msg_to := a\<rparr>]) else map_of (mailboxes m) a)" for a
      using look [of a] q [of a] notin True by (cases "a = fst e") (auto simp: map_of_update_if dest: notin)
    then show ?thesis using mb True by (intro exI [of _ mb]) (simp add: deliver_topic_Cons)
  next
    case False
    then show ?thesis using Cons.IH [of m n] Cons.prems by (simp add: deliver_topic_Cons)
  qed
next
  case Nil
  then show ?case by (intro exI [of _ "mailboxes m"]) simp
qed

section \<open>Well-formed managers\<close>

definition fits :: "serializer \<Rightarrow> json \<Rightarrow> bool" where
  "fits tv p \<longleftrightarrow> (\<exists>b. tv p = Inr b \<and> length b \<le> MAX_IPC_PAYLOAD_BYTES)"

definition box_ok :: "serializer \<Rightarrow> uuid \<Rightarrow> IpcMessage list \<Rightarrow> bool" where
  "box_ok tv a q \<longleftrightarrow> length q \<le> MAILBOX_CAPACITY \<and> (\<forall>msg\<in>set q. msg_to msg = a \<and> fits tv (msg_payload msg))"

definition ipc_ok :: "serializer \<Rightarrow> IpcManager \<Rightarrow> bool" where
  "ipc_ok tv m \<longleftrightarrow> distinct (map fst (mailboxes m)) \<and> distinct (map fst (subscriptions m)) \<and>
     (\<forall>a. box_ok tv a (queue m a)) \<and>
     length (dead_letters m) \<le> MAX_DEAD_LETTERS \<and> (\<forall>msg\<in>set (dead_letters m). fits tv (msg_payload msg))"

lemma bound_fits: "check_payload_bound tv p = Inr u \<Longrightarrow> fits tv p"
  by (auto simp: check_payload_bound_def fits_def split: sum.splits if_splits)

lemma box_ok_append:
  "box_ok tv a q \<Longrightarrow> length q < MAILBOX_CAPACITY \<Longrightarrow> msg_to msg = a \<Longrightarrow> fits tv (msg_payload msg) \<Longrightarrow> box_ok tv a (q @ [msg])"
  by (auto simp: box_ok_def)

lemma box_ok_Nil [simp]: "box_ok tv a []"
  by (simp add: box_ok_def)

lemma box_ok_tl: "box_ok tv a (msg # q) \<Longrightarrow> box_ok tv a q"
  by (simp add: box_ok_def)

lemma add_dead_letter_ok:
  assumes "length ls \<le> MAX_DEAD_LETTERS"
  shows "length (add_dead_letter msg ls) \<le> MAX_DEAD_LETTERS \<and> set (add_dead_letter msg ls) \<subseteq> insert msg (set ls)"
  using assms by (cases ls) (auto simp: add_dead_letter_def remove_at_def MAX_DEAD_LETTERS_def)

lemma ipc_ok_box:
  assumes "ipc_ok tv m" "box_ok tv a q"
  shows "ipc_ok tv (m\<lparr>mailboxes := AList.update a q (mailboxes m)\<rparr>)"
  using assms by (simp add: ipc_ok_def queue_update distinct_update)

lemma ipc_ok_new: "ipc_ok tv ipc_new"
  by (simp add: ipc_ok_def ipc_new_def queue_def)

lemma send_ok: "ipc_ok tv m \<Longrightarrow> ipc_ok tv (snd (send tv su vis m x y p t))"
proof (cases rule: send_cases [of tv su vis m x y p t])
  case (dead msg)
  assume ok: "ipc_ok tv m"
  then show ?thesis using add_dead_letter_ok [of "dead_letters m" msg] bound_fits [OF dead(3)] dead(1,4)
    by (auto simp: ipc_ok_def)
next
  case (accepted q msg)
  assume ok: "ipc_ok tv m"
  have "box_ok tv y q" using ok accepted(4) by (auto simp: ipc_ok_def queue_def dest: spec [of _ y])
  then have "box_ok tv y (q @ [msg])" using accepted(1,5) bound_fits [OF accepted(3)] by (intro box_ok_append) auto
  then show ?thesis using ok accepted(6) by (simp add: ipc_ok_box)
qed simp

lemma receive_ok: "ipc_ok tv m \<Longrightarrow> ipc_ok tv (snd (receive m a))"
proof (cases "map_of (mailboxes m) a")
  case (Some q)
  assume ok: "ipc_ok tv m"
  then have "box_ok tv a q" using Some by (auto simp: ipc_ok_def queue_def dest: spec [of _ a])
  then show ?thesis using ok Some by (cases q) (auto simp: receive_def intro: ipc_ok_box dest: box_ok_tl)
qed (simp add: receive_def)

lemma publish_cases [consumes 1]:
  assumes "ipc_ok tv m"
  obtains (refused) e where "publish tv vis m x topic p t = (Inl e, m)"
  | (sent) mb where "fits tv p"
      "publish tv vis m x topic p t = (Inr (length (filter (reaches vis m x topic) (map fst (subscriptions m)))), m\<lparr>mailboxes := mb\<rparr>)"
      "distinct (map fst mb)"
      "\<And>a. map_of mb a = (if reaches vis m x topic a
         then Some (queue m a @ [\<lparr>msg_from = x, msg_to = a, msg_payload = p, msg_timestamp = t\<rparr>]) else map_of (mailboxes m) a)"
proof (cases "check_payload_bound tv p")
  case (Inr u)
  let ?msg = "\<lparr>msg_from = x, msg_to = 0, msg_payload = p, msg_timestamp = t\<rparr>"
  have d: "distinct (map fst (subscriptions m))" "distinct (map fst (mailboxes m))" using assms by (auto simp: ipc_ok_def)
  have r: "reaches vis m x topic (fst e) = hit vis m x topic e" if "e \<in> set (subscriptions m)" for e
  proof -
    have "map_of (subscriptions m) (fst e) = Some (snd e)" using that d(1) by (intro map_of_is_SomeI) simp_all
    then show ?thesis by (simp add: reaches_def hit_def has_room_def)
  qed
  then have f: "filter (reaches vis m x topic) (map fst (subscriptions m)) = map fst (filter (hit vis m x topic) (subscriptions m))"
    by (simp add: filter_map comp_def cong: filter_cong)
  have ex: "(\<exists>e\<in>set (subscriptions m). fst e = a \<and> hit vis m x topic e) = reaches vis m x topic a" for a
  proof
    assume "reaches vis m x topic a"
    moreover from this obtain ts where "(a, ts) \<in> set (subscriptions m)"
      by (auto simp: reaches_def split: option.splits dest: map_of_SomeD)
    ultimately show "\<exists>e\<in>set (subscriptions m). fst e = a \<and> hit vis m x topic e" using r by (metis fst_conv)
  qed (use r in blast)
  show ?thesis
  proof (cases "topic \<in> set (topics m)")
    case True
    have "\<exists>mb. deliver_topic vis ?msg topic (subscriptions m) 0 m =
        (length (filter (hit vis m x topic) (subscriptions m)), m\<lparr>mailboxes := mb\<rparr>) \<and> distinct (map fst mb) \<and>
      (\<forall>a. map_of mb a = (if reaches vis m x topic a then Some (queue m a @ [?msg\<lparr>msg_to := a\<rparr>]) else map_of (mailboxes m) a))"
      using deliver_topic_spec [OF d, of vis ?msg topic 0] by (simp only: ex IpcMessage.select_convs add_0)
    then obtain mb where "deliver_topic vis ?msg topic (subscriptions m) 0 m =
        (length (filter (hit vis m x topic) (subscriptions m)), m\<lparr>mailboxes := mb\<rparr>)" "distinct (map fst mb)"
      "\<And>a. map_of mb a = (if reaches vis m x topic a then Some (queue m a @ [?msg\<lparr>msg_to := a\<rparr>]) else map_of (mailboxes m) a)"
      by metis
    then show ?thesis using True Inr by (intro sent [OF bound_fits [OF Inr], of mb]) (simp_all add: publish_def f)
  qed (rule refused, simp add: publish_def Inr)
qed (rule refused, simp add: publish_def)

lemma publish_ok:
  assumes "ipc_ok tv m"
  shows "ipc_ok tv (snd (publish tv vis m x topic p t))"
  using assms
proof (cases rule: publish_cases [of tv m vis x topic p t])
  case (sent mb)
  let ?msg = "\<lambda>a. \<lparr>msg_from = x, msg_to = a, msg_payload = p, msg_timestamp = t\<rparr>"
  have "queue (m\<lparr>mailboxes := mb\<rparr>) a = (if reaches vis m x topic a then queue m a @ [?msg a] else queue m a)" for a
    by (simp add: queue_def sent(4))
  moreover have "length (queue m a) < MAILBOX_CAPACITY" if "reaches vis m x topic a" for a
    using that by (simp add: reaches_def queue_def split: option.splits)
  then have "box_ok tv a (queue m a @ [?msg a])" if "reaches vis m x topic a" for a
    using that assms sent(1) by (intro box_ok_append) (simp_all add: ipc_ok_def)
  ultimately show ?thesis using assms sent(2,3) by (simp add: ipc_ok_def)
qed (simp add: assms)

lemma delegate_cases:
  obtains (refused) e m' where "delegate tv su vis m x y d f t = (Inl e, m')" "m' = m \<or>
      m' = snd (send tv su vis m x y (JObject [(''description'', JString d), (''task_id'', JString (su f)), (''type'', JString ''delegation'')]) t)"
      "\<And>a. queue m' a = queue m a"
  | (assigned) m1 where
      "send tv su vis m x y (JObject [(''description'', JString d), (''task_id'', JString (su f)), (''type'', JString ''delegation'')]) t = (Inr (), m1)"
      "delegate tv su vis m x y d f t = (Inr f, m1\<lparr>delegations := AList.update f \<lparr>task_id = f, task_from = x, task_to = y,
         task_description = d, task_status = Pending\<rparr> (delegations m1)\<rparr>)"
proof (cases "check_permission su m x y")
  case (Inl e)
  then show ?thesis by (intro refused [of e m]) (simp_all add: delegate_def)
next
  case (Inr u)
  let ?p = "JObject [(''description'', JString d), (''task_id'', JString (su f)), (''type'', JString ''delegation'')]"
  show ?thesis
  proof (cases rule: send_cases [of tv su vis m x y ?p t])
    case (refused e)
    then show ?thesis using Inr by (intro that(1) [of e m]) (simp_all add: delegate_def bind_st_def)
  next
    case (dead msg)
    then show ?thesis using Inr
      by (intro that(1) [of "DeliveryFailed ''Mailbox full''" "m\<lparr>dead_letters := add_dead_letter msg (dead_letters m)\<rparr>"])
        (simp_all add: delegate_def bind_st_def)
  next
    case (accepted q msg)
    then show ?thesis using Inr by (intro that(2) [OF accepted(6)]) (simp add: delegate_def bind_st_def)
  qed
qed

lemma ipc_ok_delegations [simp]: "ipc_ok tv (m\<lparr>delegations := x\<rparr>) = ipc_ok tv m"
  by (simp add: ipc_ok_def)

lemma delegate_ok: "ipc_ok tv m \<Longrightarrow> ipc_ok tv (snd (delegate tv su vis m x y d f t))"
proof (cases rule: delegate_cases [of tv su vis m x y d f t])
  case (assigned m1)
  assume "ipc_ok tv m"
  from send_ok [OF this] assigned show ?thesis by (metis ipc_ok_delegations snd_conv)
qed (auto dest: send_ok)

lemma register_ok: "ipc_ok tv m \<Longrightarrow> ipc_ok tv (ipc_register_agent m a)"
  by (simp add: ipc_register_agent_def ipc_ok_box)

lemma ipc_unregister_ok: "ipc_ok tv m \<Longrightarrow> ipc_ok tv (ipc_unregister_agent m a)"
proof -
  assume ok: "ipc_ok tv m"
  have "queue (ipc_unregister_agent m a) b = (if b = a then [] else queue m b)" for b
    by (simp add: queue_def ipc_unregister_agent_def delete_conv')
  moreover have "length (filter P (dead_letters m)) \<le> MAX_DEAD_LETTERS" for P
    using ok length_filter_le order_trans unfolding ipc_ok_def by blast
  ultimately show ?thesis using ok by (auto simp: ipc_ok_def ipc_unregister_agent_def distinct_delete)
qed

lemma subscriptions_ok: "ipc_ok tv m \<Longrightarrow> ipc_ok tv (subscribe m a x) \<and> ipc_ok tv (unsubscribe m a x)"
  by (simp add: ipc_ok_def subscribe_def unsubscribe_def distinct_update)

lemma administration_ok:
  "ipc_ok tv m \<Longrightarrow> ipc_ok tv (enable_permissions m)" "ipc_ok tv m \<Longrightarrow> ipc_ok tv (allow_communication m a b)"
  "ipc_ok tv m \<Longrightarrow> ipc_ok tv (set_namespace_visibility m)" "ipc_ok tv m \<Longrightarrow> ipc_ok tv (snd (complete_delegation su m a i))"
  by (simp_all add: ipc_ok_def enable_permissions_def allow_communication_def set_namespace_visibility_def
      complete_delegation_def split: option.split)

lemma apply_ok: "ipc_ok tv m \<Longrightarrow> ipc_ok tv (snd (ipc_apply tv su vis op m))"
  by (cases op) (simp_all add: register_ok ipc_unregister_ok administration_ok send_ok receive_ok subscriptions_ok publish_ok delegate_ok)

section \<open>Exactly once, in order\<close>

lemma send_fifo:
  "queue m a @ sent vis su m a (OpSend x y p t) (Delivered (fst (send tv su vis m x y p t))) = queue (snd (send tv su vis m x y p t)) a"
  by (cases rule: send_cases [of tv su vis m x y p t]) (auto simp: queue_def map_of_update_if)

lemma delegate_fifo:
  "queue m a @ sent vis su m a (OpDelegate x y d f t) (Task (fst (delegate tv su vis m x y d f t))) =
   queue (snd (delegate tv su vis m x y d f t)) a"
proof (cases rule: delegate_cases [of tv su vis m x y d f t])
  case (assigned m1)
  then show ?thesis
    using send_fifo [of m a vis su x y "JObject [(''description'', JString d), (''task_id'', JString (su f)), (''type'', JString ''delegation'')]" t tv]
    by simp
qed simp

lemma publish_fifo:
  assumes "ipc_ok tv m"
  shows "queue m a @ sent vis su m a (OpPublish x topic p t) (Reached (fst (publish tv vis m x topic p t))) =
    queue (snd (publish tv vis m x topic p t)) a"
  using assms
proof (cases rule: publish_cases [of tv m vis x topic p t])
  case (sent mb)
  then show ?thesis by (simp add: queue_def)
qed simp

lemma receive_fifo: "queue m a = taken a (OpReceive x) (Got (fst (receive m x))) @ queue (snd (receive m x)) a"
  by (cases "map_of (mailboxes m) x"; cases "the (map_of (mailboxes m) x)") (auto simp: receive_def queue_def map_of_update_if)

lemma apply_fifo:
  assumes "ipc_ok tv m" and "\<not> remakes a op" and "ipc_apply tv su vis op m = (r, m')"
  shows "queue m a @ sent vis su m a op r = taken a op r @ queue m' a"
proof -
  have *: "r = fst (ipc_apply tv su vis op m)" "m' = snd (ipc_apply tv su vis op m)" using assms(3) by simp_all
  show ?thesis
  proof (cases op)
    case (OpReceive x)
    then show ?thesis using * receive_fifo [of m a x] by (cases r) (auto split: sum.splits)
  next
    case (OpComplete x i)
    then show ?thesis using * by (auto simp: complete_delegation_def split: option.split)
  next
    case (OpSend x y p t)
    then show ?thesis using * send_fifo [of m a vis su x y p t tv] by simp
  next
    case (OpPublish x topic p t)
    then show ?thesis using * publish_fifo [OF assms(1), of a vis su x topic p t] by simp
  next
    case (OpDelegate x y d f t)
    then show ?thesis using * delegate_fifo [of m a vis su x y d f t tv] by simp
  qed (use * assms(1,2) in \<open>auto simp: queue_def ipc_register_agent_def map_of_update_if
      ipc_unregister_agent_def delete_conv' enable_permissions_def allow_communication_def set_namespace_visibility_def
      subscribe_def unsubscribe_def\<close>)
qed

lemma run_Cons:
  assumes "ipc_apply tv su vis op m = (r, m1)"
  shows "ipc_run tv su a ((vis, op) # ops) m = (sent vis su m a op r @ fst (ipc_run tv su a ops m1),
    taken a op r @ fst (snd (ipc_run tv su a ops m1)), snd (snd (ipc_run tv su a ops m1)))"
  using assms by (simp add: Let_def split_beta)

lemma run_ok: "ipc_ok tv m \<Longrightarrow> ipc_ok tv (snd (snd (ipc_run tv su a ops m)))"
proof (induction ops arbitrary: m)
  case (Cons s ops)
  obtain vis op where s: "s = (vis, op)" by fastforce
  obtain r m1 where m1: "ipc_apply tv su vis op m = (r, m1)" by fastforce
  from apply_ok [OF Cons.prems, of su vis op] m1 have "ipc_ok tv m1" by simp
  from Cons.IH [OF this] show ?case by (simp add: s run_Cons [OF m1] del: ipc_run.simps)
qed simp

lemma run_fifo:
  assumes "ipc_ok tv m" and "\<And>vis op. (vis, op) \<in> set ops \<Longrightarrow> \<not> remakes a op" and "ipc_run tv su a ops m = (s, t, m')"
  shows "queue m a @ s = t @ queue m' a"
  using assms
proof (induction ops arbitrary: m s t)
  case (Cons e ops)
  obtain vis op where e: "e = (vis, op)" by fastforce
  obtain r m1 where m1: "ipc_apply tv su vis op m = (r, m1)" by fastforce
  obtain s1 t1 m2 where r1: "ipc_run tv su a ops m1 = (s1, t1, m2)" by (metis prod.exhaust)
  from apply_ok [OF Cons.prems(1), of su vis op] m1 have "ipc_ok tv m1" by simp
  moreover have "m2 = m'" "s = sent vis su m a op r @ s1" "t = taken a op r @ t1"
    using Cons.prems(3) by (simp_all add: e run_Cons [OF m1] r1 del: ipc_run.simps)
  ultimately have "queue m1 a @ s1 = t1 @ queue m' a" using Cons.IH [of m1] Cons.prems(2) r1 by fastforce
  moreover have "queue m a @ sent vis su m a op r = taken a op r @ queue m1 a"
    using apply_fifo [OF Cons.prems(1) _ m1] Cons.prems(2) e by auto
  ultimately show ?case using \<open>s = _\<close> \<open>t = _\<close> by (metis append.assoc)
qed simp

section \<open>Isolation\<close>





section \<open>Properties\<close>

text \<open>C32: Whatever is called, no mailbox holds more than its capacity and the dead letters stay within their bound; every
  message in a mailbox is addressed to its owner, and everything that is stored is within the payload bound.\<close>

theorem ipc_queues_bounded:
  assumes "m = snd (snd (ipc_run tv su a ops ipc_new))"
  shows "length (queue m b) \<le> 256 \<and> length (dead_letters m) \<le> 256 \<and> (\<forall>msg\<in>set (queue m b). msg_to msg = b) \<and>
    (\<forall>msg\<in>set (queue m b @ dead_letters m). \<exists>bytes. tv (msg_payload msg) = Inr bytes \<and> length bytes \<le> 65536)"
proof -
  have "ipc_ok tv m" using run_ok [OF ipc_ok_new] assms by simp
  then show ?thesis
    by (auto simp: ipc_ok_def box_ok_def fits_def MAILBOX_CAPACITY_def MAX_DEAD_LETTERS_def MAX_IPC_PAYLOAD_BYTES_def)
qed

text \<open>C12: A mailbox delivers exactly once and in order. From any reachable state, as long as the agent is neither registered anew
  nor removed, what was in its mailbox followed by every message that a send, a delegation or a publication reports as
  accepted for it is what its receives return followed by what is left; nothing is lost, repeated or reordered.\<close>

theorem mailbox_exactly_once:
  assumes "m = snd (snd (ipc_run tv su x before ipc_new))" and "ipc_run tv su a ops m = (s, t, m')"
    and "list_all (\<lambda>e. \<not> remakes a (snd e)) ops"
  shows "queue m a @ s = t @ queue m' a"
proof (rule run_fifo [OF _ _ assms(2)])
  show "ipc_ok tv m" using run_ok [OF ipc_ok_new] assms(1) by simp
  show "\<And>vis op. (vis, op) \<in> set ops \<Longrightarrow> \<not> remakes a op" using assms(3) by (auto simp: list_all_iff)
qed


text \<open>
  The check does not hide who exists: an oversized payload is refused for its size when the receiver does not exist, and
  as if the receiver did not exist when it is registered in a foreign namespace.
\<close>

lemma oversize_probe:
  assumes "namespace_check m" and "allowed_pairs m = None" and "check_payload_bound tv p = Inl e"
    and "\<not> shares_namespace g a b" and "map_of (records g) c = None"
  shows "fst (send tv su (gate_allows g) m a b p t) = Inl (AgentNotFound b) \<and> fst (send tv su (gate_allows g) m a c p t) = Inl e"
  using assms by (simp add: send_def namespace_allows_def gate_allows_def shares_namespace_def check_permission_def bind_res_def
      split: option.splits)

section \<open>Witnesses\<close>

text \<open>Agents 1 and 2, a topic, three messages for agent 1 and one receive.\<close>

definition demo_calls :: "(visibility_answer \<times> ipc_op) list" where
  "demo_calls = map (Pair (\<lambda>_ _. True)) [OpSend 2 1 JNull 5, OpPublish 2 ''t'' (JBool True) 6, OpReceive 1, OpDelegate 2 1 ''d'' 9 7]"

definition demo_ipc :: IpcManager where
  "demo_ipc = snd (snd (ipc_run (\<lambda>_. Inr ''x'') (\<lambda>_. ''u'') 1
     (map (Pair (\<lambda>_ _. True)) [OpRegister 1, OpRegister 2, OpSubscribe 1 ''t'']) ipc_new))"

lemmas demo_ipc_defs = demo_calls_def demo_ipc_def ipc_new_def ipc_register_agent_def subscribe_def publish_def receive_def send_def
  delegate_def check_permission_def check_payload_bound_def namespace_allows_def try_send_def MAX_IPC_PAYLOAD_BYTES_def
  MAILBOX_CAPACITY_def reaches_def queue_def bind_res_def bind_st_def

theorem mailbox_exactly_once_witness:
  "map msg_timestamp (queue demo_ipc 1 @ fst (ipc_run (\<lambda>_. Inr ''x'') (\<lambda>_. ''u'') 1 demo_calls demo_ipc)) = [5, 6, 7] \<and>
   (case ipc_run (\<lambda>_. Inr ''x'') (\<lambda>_. ''u'') 1 demo_calls demo_ipc of (s, t, m') \<Rightarrow> queue demo_ipc 1 @ s = t @ queue m' 1)"
proof -
  let ?r = "ipc_run (\<lambda>_. Inr ''x'') (\<lambda>_. ''u'') 1 demo_calls demo_ipc"
  have "list_all (\<lambda>e. \<not> remakes 1 (snd e)) demo_calls" by (simp add: demo_calls_def)
  then have "queue demo_ipc 1 @ fst ?r = fst (snd ?r) @ queue (snd (snd ?r)) 1"
    using mailbox_exactly_once [OF demo_ipc_def, of 1 demo_calls "fst ?r" "fst (snd ?r)" "snd (snd ?r)"] by simp
  moreover have "map msg_timestamp (queue demo_ipc 1 @ fst ?r) = [5, 6, 7]" by (simp add: demo_ipc_defs)
  ultimately show ?thesis by (simp add: split_beta)
qed

theorem ipc_queues_bounded_witness:
  "length (queue demo_ipc 1) \<le> 256 \<and> length (dead_letters demo_ipc) \<le> 256"
  using ipc_queues_bounded [OF demo_ipc_def, of 1] by blast



end
