(* ===== verification/Spec2Isabelle.thy ===== *)
theory Spec2Isabelle
  imports Agent_Struct Mac Resources Tools Policy Namespaces Cgroup_Calls Permissions Gate_System Admission Ipc
begin

text \<open>
  A verification library for the kernel of AI Agent OS (\<open>crates/kernel/src\<close>).

  \<^bold>\<open>The program.\<close> The kernel runs language-model agents as an operating system runs processes. An agent has a
  descriptor with a state, capabilities and signals (\<open>agent_struct.rs\<close>). Its turns are admitted by a
  scheduler (\<open>cfs.rs\<close>) and its provider requests by another (\<open>llm_sched.rs\<close>). Every tool call it makes
  is prepared by the tool registry (\<open>tools.rs\<close>) as a resource request (\<open>resources.rs\<close>) and passes the
  syscall gate (\<open>syscall_gate.rs\<close>), which asks, in this order, whether the tool is visible in the agent's
  namespaces (\<open>namespaces.rs\<close>), whether the agent has the capabilities, what the mandatory access control
  engine says (\<open>mac.rs\<close>, filled from policy documents, \<open>policy.rs\<close>), whether a required approval was
  granted, and whether the agent's control group has a free slot (\<open>cgroups.rs\<close>). The resource broker asks
  the permission system (\<open>permissions.rs\<close>) before a provider is called. Agents talk through mailboxes and topics
  (\<open>ipc.rs\<close>), which ask the gate who may see whom.

  \<^bold>\<open>The theories.\<close> Each component theory holds, in the order of its source file, a record or datatype for every
  structure and one definition for every operation, with the source's names where they are free.

  \<^descr> \<open>Prelude\<close>: widths of integers, saturating arithmetic, results (\<open>'e + 'a\<close>, with \<open>bind_res\<close> for
    \<open>?\<close>, \<open>bind_st\<close> where a state is threaded, and \<open>failure\<close> where a panic is possible), association lists for maps.
  \<^descr> \<open>Agent_Struct\<close>: descriptor, capability set, signal delivery, table. SIGKILL is fatal; identifiers are distinct.
  \<^descr> \<open>First_Match\<close>: the locale of rule lists decided by the first rule that matches, interpreted by the
    engine and by permission profiles.
  \<^descr> \<open>Mac\<close>: the engine. The glob matcher is equivalent to the inductive meaning of patterns; a permit of an
    enforcing engine rests on a rule.
  \<^descr> \<open>Resources\<close>, \<open>Tools\<close>: provider operations, path normalisation, request limits, the proof that binds a
    request to an authorisation; security declarations, registration, templates and preparation of calls.
  \<^descr> \<open>Policy\<close>: documents, lints, lowering. The lowered engine decides as the document does.
  \<^descr> \<open>Namespaces\<close>, \<open>Permissions\<close>: membership and visibility; profiles, elevation, the audit log.
  \<^descr> \<open>Cgroups\<close>, \<open>Cgroup_Calls\<close>, \<open>Cgroup_Members\<close>: the tree of groups, its limits, and the guards of admitted calls.
    Under any interleaving every counter is the number of live reservations below its group.
  \<^descr> \<open>Syscall_Gate\<close>, \<open>Gate_System\<close>: the gate, one definition for each section of a call that runs under one
    lock, and the steps of all sections of any number of calls. The gate refines an abstract gate; admitted calls
    are authorised when they are admitted; approvals are spent once.
  \<^descr> \<open>Cfs\<close>, \<open>Admission\<close>: the fair scheduler, turn admission and the provider-request scheduler, whose
    common contract is the locale \<open>slot_pool\<close>; the order among contenders is the locale \<open>contender_order\<close>.
  \<^descr> \<open>Ipc\<close>: mailboxes, topics and delegation. Mailboxes are queues; what is used of the gate's answer is the locale
    \<open>visibility\<close>, interpreted by the gate, and agents the gate keeps apart cannot reach each other.

  \<^bold>\<open>Conventions.\<close> Arithmetic is that of a release build: \<open>+\<close> on machine integers wraps unless the source
  saturates or checks. \<open>usize\<close> is \<open>nat\<close> with \<open>usize_max\<close> written out. Hash maps are association lists; no
  lemma depends on their order except through the code that iterates over them. Strings are lists of bytes. Locks
  are the granularity of steps: what the source does under one lock is one definition, and what it
  does under several is several, which the step relations interleave. Parameters stand for third-party code: the
  TOML and JSON codecs, digests, fresh identifiers, clocks and the printing of identifiers.

  \<^bold>\<open>Bounds and fuel.\<close> No definition uses fuel: recursion is structural, or on a
  measure (glob matching on the two lengths, ancestor walks on the depth of a well-formed tree). Where a 64-bit
  counter would wrap (sequence numbers, virtual clocks, process identifiers), the step relation or the hypothesis of the
  lemma says how far it runs; the bounds are 2^64 steps, out of reach of any run.

  \<^bold>\<open>Not modelled.\<close> The kernel facade, the execution loop and the servers (\<open>lib.rs\<close>, \<open>agent.rs\<close>, \<open>runtime.rs\<close>,
  \<open>execution.rs\<close>, \<open>syscall_server.rs\<close>) are asynchronous plumbing between components, stores and sockets. The
  context store, quotas, identity and backup (\<open>context.rs\<close>, \<open>rate_limit.rs\<close>, \<open>auth.rs\<close>, \<open>storage.rs\<close>) are SQL
  transactions; the cluster is OpenRaft; sandboxes are the operating system's; packages and key custody are
  third-party cryptography; retrieval is floating point. Adapters, resource providers, client library and user
  interfaces are I/O. Of the modelled files, the asynchronous waits (for a slot, for an agent to become idle),
  the broker's provider tasks and the printed messages of gate denials are left out, and poisoned locks are not considered.
\<close>

end
